theory Spec2Isabelle
  imports Main "HOL-Library.Char_ord" "HOL-Library.List_Lexorder" "HOL-Library.AList"
begin

section \<open>Strings\<close>

text \<open>
  The two programs are TypeScript: \<^verbatim>\<open>ask_user.ts\<close> (the tool whose \<^verbatim>\<open>execute\<close> asks a
  question and polls for the answer; the Requester) and \<^verbatim>\<open>ask-user-cli.ts\<close> (the terminal
  helper that shows questions and writes answers; the Responder).

  A JavaScript string is modelled as a HOL \<^typ>\<open>string\<close>. A HOL character is one of 256
  codes, so the model covers the strings whose code units are below 256 (ASCII and
  Latin-1); the functions below are the library functions of JavaScript restricted to that
  range.
\<close>

definition isWhiteSpace :: "char \<Rightarrow> bool" where
  \<comment> \<open>What \<^verbatim>\<open>String.prototype.trim\<close> strips, below code 256: TAB, LF, VT, FF, CR, SP, NBSP.\<close>
  "isWhiteSpace c = (of_char c \<in> {9, 10, 11, 12, 13, 32, 160 :: nat})"

definition trim :: "string \<Rightarrow> string" where
  "trim s = rev (dropWhile isWhiteSpace (rev (dropWhile isWhiteSpace s)))"

definition toLowerCase_char :: "char \<Rightarrow> char" where
  \<comment> \<open>A to Z, and the Latin-1 capitals 0xC0 to 0xDE but the multiplication sign 0xD7.\<close>
  "toLowerCase_char c =
     (let n = of_char c :: nat in
      if (65 \<le> n \<and> n \<le> 90) \<or> (192 \<le> n \<and> n \<le> 222 \<and> n \<noteq> 215)
      then char_of (n + 32) else c)"

definition toLowerCase :: "string \<Rightarrow> string" where
  "toLowerCase s = map toLowerCase_char s"

fun join :: "string list \<Rightarrow> string" where
  \<comment> \<open>\<^verbatim>\<open>lines.join("\n")\<close>\<close>
  "join [] = []"
| "join [x] = x"
| "join (x # y # zs) = x @ [CHR 0x0A] @ join (y # zs)"

definition startsWith :: "string \<Rightarrow> string \<Rightarrow> bool" where
  "startsWith s p = (take (length p) s = p)"

definition endsWith :: "string \<Rightarrow> string \<Rightarrow> bool" where
  "endsWith s p = (length p \<le> length s \<and> drop (length s - length p) s = p)"

fun decimal :: "nat \<Rightarrow> string" where
  \<comment> \<open>A non-negative integer in a template literal.\<close>
  "decimal n =
     (if n < 10 then [''0123456789'' ! n]
      else decimal (n div 10) @ [''0123456789'' ! (n mod 10)])"

definition show_int :: "int \<Rightarrow> string" where
  "show_int i = (if i < 0 then CHR ''-'' # decimal (nat (- i)) else decimal (nat i))"

section \<open>Records of the mailbox\<close>

text \<open>
  The interfaces \<^verbatim>\<open>Question\<close> and \<^verbatim>\<open>Response\<close>, declared alike in both programs. The
  fields \<^verbatim>\<open>id\<close> and \<^verbatim>\<open>timestamp\<close> occur in both, so they carry a prefix here.
  Timestamps are milliseconds, as \<^verbatim>\<open>Date.now()\<close> gives them.
\<close>

record Question =
  q_id :: string
  question :: string
  title :: "string option"
  sessionID :: string
  messageID :: string
  q_timestamp :: int

record Response =
  r_id :: string
  response :: string
  responded :: bool
  r_timestamp :: int

text \<open>
  What \<^verbatim>\<open>JSON.parse\<close> returns on a file of the mailbox: the object a program
  stringified, or \<^verbatim>\<open>null\<close>, the one value of JSON on which reading a property throws a
  TypeError. The text of a file is modelled by what \<^verbatim>\<open>JSON.parse\<close> makes of it:
  \<open>Partial\<close> is any text it rejects with a SyntaxError (an empty or half-written file),
  \<open>Stringify v\<close> is \<^verbatim>\<open>JSON.stringify(v, null, 2)\<close>, which parses back to \<open>v\<close>, and
  \<open>NullText\<close> is the text \<^verbatim>\<open>null\<close>.
\<close>

datatype jsobj = AQuestion Question | AResponse Response

datatype json = Null | Object jsobj

datatype filetext = Partial | Stringify jsobj | NullText

datatype err = ENOENT | ENOTDIR | EISDIR | EIO | SyntaxError | TypeError

definition JSON_parse :: "filetext \<Rightarrow> err + json" where
  "JSON_parse t =
     (case t of
        Partial \<Rightarrow> Inl SyntaxError
      | Stringify v \<Rightarrow> Inr (Object v)
      | NullText \<Rightarrow> Inr Null)"

definition obj_id :: "jsobj \<Rightarrow> string" where
  \<comment> \<open>The property \<^verbatim>\<open>.id\<close>, which both kinds of record have.\<close>
  "obj_id v = (case v of AQuestion q \<Rightarrow> q_id q | AResponse r \<Rightarrow> r_id r)"

definition obj_responded :: "jsobj \<Rightarrow> bool" where
  \<comment> \<open>The truth value of \<^verbatim>\<open>.responded\<close>: undefined, so falsy, on a question record.\<close>
  "obj_responded v = (case v of AQuestion q \<Rightarrow> False | AResponse r \<Rightarrow> responded r)"

definition obj_response :: "jsobj \<Rightarrow> string" where
  \<comment> \<open>\<^verbatim>\<open>.response\<close>, read only where \<^verbatim>\<open>.responded\<close> is truthy, so on a reply record.\<close>
  "obj_response v = (case v of AQuestion q \<Rightarrow> [] | AResponse r \<Rightarrow> response r)"

section \<open>The file system\<close>

text \<open>
  Both programs work in one directory, \<^verbatim>\<open>IPC_DIR\<close>, and name files by
  \<^verbatim>\<open>path.join(IPC_DIR, name)\<close>. The directory holds files only, and a file of it is
  identified here by its name in the directory (an entry). The world of a program is the
  directory (whether it exists, and its files in the order \<^verbatim>\<open>readdirSync\<close> lists them), the
  clock that \<^verbatim>\<open>Date.now()\<close> reads, and the operations that currently fail for a reason of
  the environment (permission denied, disk full; the error \<open>EIO\<close> stands for them). The
  field \<open>trace\<close> records what the program has done, the latest operation last, each
  operation on a file under the name that the program joined to \<^verbatim>\<open>IPC_DIR\<close>, whether or
  not it succeeded.
\<close>

datatype effect =
    ExistsDir
  | Exists string
  | Mkdir
  | Readdir
  | ReadFile string
  | WriteFile string
  | Unlink string
  | Shown string

record world =
  dir_exists :: bool
  files :: "(string \<times> filetext) list"
  failing :: "effect list"
  clock :: int
  trace :: "effect list"

definition log :: "effect \<Rightarrow> world \<Rightarrow> world" where
  "log e w = w\<lparr>trace := trace w @ [e]\<rparr>"

definition present :: "string \<Rightarrow> world \<Rightarrow> bool" where
  "present f w = (dir_exists w \<and> map_of (files w) f \<noteq> None)"

definition existsSync_dir :: "world \<Rightarrow> bool \<times> world" where
  \<comment> \<open>\<^verbatim>\<open>fs.existsSync(IPC_DIR)\<close>\<close>
  "existsSync_dir w = (dir_exists w, log ExistsDir w)"

definition existsSync :: "string \<Rightarrow> world \<Rightarrow> bool \<times> world" where
  \<comment> \<open>\<^verbatim>\<open>fs.existsSync\<close> never throws.\<close>
  "existsSync f w = (present f w, log (Exists f) w)"

definition mkdirSync :: "world \<Rightarrow> (err + unit) \<times> world" where
  \<comment> \<open>\<^verbatim>\<open>fs.mkdirSync(IPC_DIR, { recursive: true })\<close>: no error if the directory exists.\<close>
  "mkdirSync w =
     (if Mkdir \<in> set (failing w) then (Inl EIO, log Mkdir w)
      else (Inr (), (log Mkdir w)\<lparr>dir_exists := True\<rparr>))"

definition readdirSync :: "world \<Rightarrow> (err + string list) \<times> world" where
  "readdirSync w =
     (if Readdir \<in> set (failing w) then (Inl EIO, log Readdir w)
      else if \<not> dir_exists w then (Inl ENOENT, log Readdir w)
      else (Inr (map fst (files w)), log Readdir w))"

definition readFileSync :: "string \<Rightarrow> world \<Rightarrow> (err + filetext) \<times> world" where
  "readFileSync f w =
     (if ReadFile f \<in> set (failing w) then (Inl EIO, log (ReadFile f) w)
      else if \<not> dir_exists w then (Inl ENOENT, log (ReadFile f) w)
      else case map_of (files w) f of
             None \<Rightarrow> (Inl ENOENT, log (ReadFile f) w)
           | Some t \<Rightarrow> (Inr t, log (ReadFile f) w))"

definition writeFileSync :: "string \<Rightarrow> filetext \<Rightarrow> world \<Rightarrow> (err + unit) \<times> world" where
  "writeFileSync f t w =
     (if WriteFile f \<in> set (failing w) then (Inl EIO, log (WriteFile f) w)
      else if \<not> dir_exists w then (Inl ENOENT, log (WriteFile f) w)
      else (Inr (), (log (WriteFile f) w)\<lparr>files := AList.update f t (files w)\<rparr>))"

definition unlinkSync :: "string \<Rightarrow> world \<Rightarrow> (err + unit) \<times> world" where
  "unlinkSync f w =
     (if Unlink f \<in> set (failing w) then (Inl EIO, log (Unlink f) w)
      else if \<not> present f w then (Inl ENOENT, log (Unlink f) w)
      else (Inr (), (log (Unlink f) w)\<lparr>files := AList.delete f (files w)\<rparr>))"

definition readJson :: "string \<Rightarrow> world \<Rightarrow> (err + json) \<times> world" where
  \<comment> \<open>\<^verbatim>\<open>JSON.parse(fs.readFileSync(f, "utf-8"))\<close>\<close>
  "readJson f w =
     (case readFileSync f w of
        (Inl e, w1) \<Rightarrow> (Inl e, w1)
      | (Inr t, w1) \<Rightarrow> (JSON_parse t, w1))"

definition ensureIpcDir :: "world \<Rightarrow> (err + unit) \<times> world" where
  "ensureIpcDir w =
     (case existsSync_dir w of
        (True, w1) \<Rightarrow> (Inr (), w1)
      | (False, w1) \<Rightarrow> mkdirSync w1)"

definition interfere :: "(world \<Rightarrow> world) \<Rightarrow> world \<Rightarrow> world" where
  \<comment> \<open>What the rest of the system does while a program is between two of its operations:
      anything, but it cannot rewrite the record of the program's own operations.\<close>
  "interfere env w = (env w)\<lparr>trace := trace w\<rparr>"

definition unlink_if_exists :: "(world \<Rightarrow> world) \<Rightarrow> string \<Rightarrow> world \<Rightarrow> (err + unit) \<times> world" where
  \<comment> \<open>The cleanup idiom of \<^verbatim>\<open>execute\<close>: \<^verbatim>\<open>if (fs.existsSync(f)) { fs.unlinkSync(f) }\<close>.
      These are two calls: \<open>race\<close> is what the other processes do between them.\<close>
  "unlink_if_exists race f w =
     (case existsSync f w of
        (True, w1) \<Rightarrow> unlinkSync f (interfere race w1)
      | (False, w1) \<Rightarrow> (Inr (), w1))"

text \<open>
  The names \<^verbatim>\<open>`question_${id}.json`\<close> and \<^verbatim>\<open>`response_${id}.json`\<close> that both programs
  join to \<^verbatim>\<open>IPC_DIR\<close>.
\<close>

definition questionFile_of :: "string \<Rightarrow> string" where
  "questionFile_of i = ''question_'' @ i @ ''.json''"

definition responseFile_of :: "string \<Rightarrow> string" where
  "responseFile_of i = ''response_'' @ i @ ''.json''"

text \<open>
  \<^verbatim>\<open>path.join\<close> of the POSIX \<^verbatim>\<open>path\<close> module: the segments of its arguments, in which an
  empty segment and \<^verbatim>\<open>.\<close> are dropped and \<^verbatim>\<open>..\<close> removes the segment before it (at the
  root, nothing). A path is absolute here and is the list of its segments.
  \<^verbatim>\<open>os.homedir()\<close> is taken to be \<^verbatim>\<open>/home/user\<close>.

  The name of a request or a reply file made from an id without \<^verbatim>\<open>/\<close> is joined to the
  entry of that name (lemma \<open>path_join_entry\<close> below). That is so for the ids that
  \<^verbatim>\<open>generateQuestionId\<close> makes and for the names that \<^verbatim>\<open>readdirSync\<close> lists, so the
  Requester's operations and the Responder's reads are operations on entries. The id
  under which the Responder writes a reply is read from a request file and can be any
  string: \<open>writeFileSync_joined\<close> is \<^verbatim>\<open>fs.writeFileSync(path.join(IPC_DIR, name), text)\<close>
  for any name. A path with a NUL character is refused by \<^verbatim>\<open>fs\<close> with a TypeError; a path
  below the directory goes through an entry, which is a file or is missing; a path that
  leaves the directory names a file that is not part of the mailbox, and writing it
  changes nothing in the directory.
\<close>

definition homedir :: string where
  "homedir = ''/home/user''"

fun split_path :: "string \<Rightarrow> string \<Rightarrow> string list" where
  \<comment> \<open>The segments of a path between its separators; \<open>seg\<close> is the segment being read.\<close>
  "split_path seg [] = [seg]"
| "split_path seg (c # cs) =
     (if c = CHR ''/'' then seg # split_path [] cs else split_path (seg @ [c]) cs)"

fun normalize_path :: "string list \<Rightarrow> string list \<Rightarrow> string list" where
  "normalize_path dir [] = dir"
| "normalize_path dir (s # ss) =
     (if s = [] \<or> s = ''.'' then normalize_path dir ss
      else if s = ''..'' then normalize_path (butlast dir) ss
      else normalize_path (dir @ [s]) ss)"

definition path_join :: "string list \<Rightarrow> string \<Rightarrow> string list" where
  "path_join dir name = normalize_path dir (split_path [] name)"

definition IPC_DIR :: "string list" where
  \<comment> \<open>\<^verbatim>\<open>path.join(os.homedir(), ".opencode", "ask_user")\<close>\<close>
  "IPC_DIR = path_join (path_join (path_join [] homedir) ''.opencode'') ''ask_user''"

definition writeFileSync_joined :: "string \<Rightarrow> filetext \<Rightarrow> world \<Rightarrow> (err + unit) \<times> world" where
  "writeFileSync_joined name t w =
     (let p = path_join IPC_DIR name in
      if CHR 0x00 \<in> set name then (Inl TypeError, log (WriteFile name) w)
      else if WriteFile name \<in> set (failing w) then (Inl EIO, log (WriteFile name) w)
      else if p \<noteq> [] \<and> butlast p = IPC_DIR then
        (if \<not> dir_exists w then (Inl ENOENT, log (WriteFile name) w)
         else (Inr (), (log (WriteFile name) w)\<lparr>files := AList.update (last p) t (files w)\<rparr>))
      else if length IPC_DIR < length p \<and> take (length IPC_DIR) p = IPC_DIR then
        (Inl (if present (p ! length IPC_DIR) w then ENOTDIR else ENOENT),
         log (WriteFile name) w)
      else if take (length p) IPC_DIR = p \<and> dir_exists w then
        (Inl EISDIR, log (WriteFile name) w)
      else (Inr (), log (WriteFile name) w))"

definition plain_id :: "string \<Rightarrow> bool" where
  \<comment> \<open>An id without a path separator and without a NUL character.\<close>
  "plain_id i = (CHR ''/'' \<notin> set i \<and> CHR 0x00 \<notin> set i)"

section \<open>The Requester: \<^verbatim>\<open>execute\<close> of the tool\<close>

text \<open>
  The object that \<^verbatim>\<open>execute\<close> stringifies and returns. The property \<^verbatim>\<open>reason\<close> is absent
  (\<open>None\<close>) from the object of an answered request. The timeout argument is a whole
  number of seconds.
\<close>

record outcome =
  o_responded :: bool
  o_response :: string
  cancelled :: bool
  reason :: "string option"

record args =
  arg_question :: string
  arg_title :: "string option"
  arg_timeout :: "int option"

record tool_context =
  ctx_sessionID :: string
  ctx_messageID :: string

definition DEFAULT_TIMEOUT_SEC :: int where
  "DEFAULT_TIMEOUT_SEC = 300"

definition toString36 :: "nat list \<Rightarrow> string" where
  \<comment> \<open>Digits in base 36, as \<^verbatim>\<open>toString(36)\<close> writes them.\<close>
  "toString36 ds = map (\<lambda>d. ''0123456789abcdefghijklmnopqrstuvwxyz'' ! (d mod 36)) ds"

definition generateQuestionId :: "int \<Rightarrow> nat list \<Rightarrow> string" where
  \<comment> \<open>\<open>timestamp\<close> is \<^verbatim>\<open>Date.now()\<close>; \<open>random\<close> are the digits in base 36 of the fraction
      \<^verbatim>\<open>Math.random()\<close>, of which \<^verbatim>\<open>toString(36).substring(2, 9)\<close> keeps the first seven.\<close>
  "generateQuestionId timestamp random =
     ''q_'' @ show_int timestamp @ ''_'' @ toString36 (take 7 random)"

definition aborted_outcome :: outcome where
  "aborted_outcome =
     \<lparr>o_responded = False, o_response = [], cancelled = True,
      reason = Some ''Agent aborted the request''\<rparr>"

definition timeout_outcome :: "int \<Rightarrow> outcome" where
  "timeout_outcome timeoutSec =
     \<lparr>o_responded = False, o_response = [], cancelled = True,
      reason = Some (''Timeout after '' @ show_int timeoutSec @
                     '' seconds waiting for user response'')\<rparr>"

definition answered_outcome :: "string \<Rightarrow> outcome" where
  "answered_outcome r =
     \<lparr>o_responded = True, o_response = r, cancelled = False, reason = None\<rparr>"

definition user_cancelled_outcome :: outcome where
  "user_cancelled_outcome =
     \<lparr>o_responded = False, o_response = [], cancelled = True,
      reason = Some ''User cancelled the request''\<rparr>"

text \<open>
  One iteration of the \<^verbatim>\<open>while (true)\<close> of \<^verbatim>\<open>execute\<close>, up to its
  \<^verbatim>\<open>await new Promise(...setTimeout...)\<close>: it returns an outcome, throws to the outer
  \<^verbatim>\<open>catch\<close>, or goes on to the sleep (\<open>Continue\<close>). \<open>aborted\<close> is
  \<^verbatim>\<open>context.abort.aborted\<close> as this iteration reads it, and \<open>race\<close> is what the other
  processes do between an existence check of this iteration and the deletion that it
  guards. The inner \<^verbatim>\<open>try\<close> encloses the read, the parse, both deletions and the test of
  \<^verbatim>\<open>responseData.responded\<close>, and its \<^verbatim>\<open>catch\<close> is empty: on a reply that parses to
  \<^verbatim>\<open>null\<close> both files are deleted before that test throws, and the loop goes on.
\<close>

datatype tick = Continue | Return outcome | Throw err

definition poll_tick_raced ::
  "(world \<Rightarrow> world) \<Rightarrow> bool \<Rightarrow> int \<Rightarrow> int \<Rightarrow> string \<Rightarrow> string \<Rightarrow> world \<Rightarrow> tick \<times> world" where
  "poll_tick_raced race aborted startTime timeoutSec questionFile responseFile w =
     (if aborted then
        (case unlink_if_exists race questionFile w of
           (Inl e, w1) \<Rightarrow> (Throw e, w1)
         | (Inr u, w1) \<Rightarrow> (Return aborted_outcome, w1))
      else if clock w - startTime > timeoutSec * 1000 then
        (case unlink_if_exists race questionFile w of
           (Inl e, w1) \<Rightarrow> (Throw e, w1)
         | (Inr u, w1) \<Rightarrow> (Return (timeout_outcome timeoutSec), w1))
      else
        (case existsSync responseFile w of
           (False, w1) \<Rightarrow> (Continue, w1)
         | (True, w1) \<Rightarrow>
             (case readJson responseFile w1 of
                (Inl e, w2) \<Rightarrow> (Continue, w2)
              | (Inr responseData, w2) \<Rightarrow>
                  (case unlink_if_exists race questionFile w2 of
                     (Inl e, w3) \<Rightarrow> (Continue, w3)
                   | (Inr u, w3) \<Rightarrow>
                       (case unlinkSync responseFile w3 of
                          (Inl e, w4) \<Rightarrow> (Continue, w4)
                        | (Inr u', w4) \<Rightarrow>
                            (case responseData of
                               Null \<Rightarrow> (Continue, w4)
                             | Object v \<Rightarrow>
                                 (if obj_responded v
                                  then (Return (answered_outcome (obj_response v)), w4)
                                  else (Return user_cancelled_outcome, w4))))))))"

text \<open>
  The loop. It has no bound of its own, so it runs against a schedule: one entry for each
  iteration, holding what the abort signal says at that iteration, what the other
  processes do between a check and a deletion of that iteration, and what they do during
  the sleep that follows. A schedule that runs out leaves the loop polling (\<open>Continue\<close>).
\<close>

type_synonym raced_schedule = "(bool \<times> (world \<Rightarrow> world) \<times> (world \<Rightarrow> world)) list"

fun poll_raced ::
  "int \<Rightarrow> int \<Rightarrow> string \<Rightarrow> string \<Rightarrow> raced_schedule \<Rightarrow> world \<Rightarrow> tick \<times> world" where
  "poll_raced startTime timeoutSec questionFile responseFile [] w = (Continue, w)"
| "poll_raced startTime timeoutSec questionFile responseFile ((aborted, race, env) # sched) w =
     (case poll_tick_raced race aborted startTime timeoutSec questionFile responseFile w of
        (Continue, w1) \<Rightarrow>
          poll_raced startTime timeoutSec questionFile responseFile sched (interfere env w1)
      | (Return r, w1) \<Rightarrow> (Return r, w1)
      | (Throw e, w1) \<Rightarrow> (Throw e, w1))"

definition cleanup_on_error ::
  "(world \<Rightarrow> world) \<Rightarrow> err \<Rightarrow> string \<Rightarrow> string \<Rightarrow> world \<Rightarrow> tick \<times> world" where
  \<comment> \<open>The outer \<^verbatim>\<open>catch (error)\<close>: an error of the cleanup itself replaces \<open>error\<close>.\<close>
  "cleanup_on_error race error questionFile responseFile w =
     (case unlink_if_exists race questionFile w of
        (Inl e, w1) \<Rightarrow> (Throw e, w1)
      | (Inr u, w1) \<Rightarrow>
          (case unlink_if_exists race responseFile w1 of
             (Inl e, w2) \<Rightarrow> (Throw e, w2)
           | (Inr u', w2) \<Rightarrow> (Throw error, w2)))"

definition execute_raced ::
  "args \<Rightarrow> tool_context \<Rightarrow> nat list \<Rightarrow> raced_schedule \<Rightarrow> (world \<Rightarrow> world) \<Rightarrow> world
     \<Rightarrow> tick \<times> world" where
  \<comment> \<open>\<open>final\<close> is what the other processes do between a check and a deletion of the outer
      \<^verbatim>\<open>catch\<close>.\<close>
  "execute_raced a context random sched final w =
     (case ensureIpcDir w of
        (Inl e, w1) \<Rightarrow> (Throw e, w1)
      | (Inr u, w1) \<Rightarrow>
          (let questionId = generateQuestionId (clock w1) random;
               timeoutSec = (case arg_timeout a of None \<Rightarrow> DEFAULT_TIMEOUT_SEC | Some t \<Rightarrow> t);
               questionData =
                 \<lparr>q_id = questionId, question = arg_question a, title = arg_title a,
                  sessionID = ctx_sessionID context, messageID = ctx_messageID context,
                  q_timestamp = clock w1\<rparr>;
               questionFile = questionFile_of questionId;
               responseFile = responseFile_of questionId
           in case writeFileSync questionFile (Stringify (AQuestion questionData)) w1 of
                (Inl e, w2) \<Rightarrow> (Throw e, w2)
              | (Inr u', w2) \<Rightarrow>
                  (case poll_raced (clock w2) timeoutSec questionFile responseFile sched w2 of
                     (Throw error, w3) \<Rightarrow>
                       cleanup_on_error final error questionFile responseFile w3
                   | (Continue, w3) \<Rightarrow> (Continue, w3)
                   | (Return r, w3) \<Rightarrow> (Return r, w3))))"

text \<open>
  The run in which no other process acts within an iteration: the other processes act
  during the sleeps only. \<open>poll_tick\<close>, \<open>poll\<close> and \<open>execute\<close> are the iteration, the loop
  and the call of such a run, whose schedule holds, for each iteration, the abort signal
  and what the other processes do during the sleep.
\<close>

type_synonym schedule = "(bool \<times> (world \<Rightarrow> world)) list"

definition unraced :: "schedule \<Rightarrow> raced_schedule" where
  "unraced sched = map (\<lambda>(aborted, env). (aborted, \<lambda>w. w, env)) sched"

definition poll_tick :: "bool \<Rightarrow> int \<Rightarrow> int \<Rightarrow> string \<Rightarrow> string \<Rightarrow> world \<Rightarrow> tick \<times> world" where
  "poll_tick aborted startTime timeoutSec questionFile responseFile w =
     poll_tick_raced (\<lambda>w. w) aborted startTime timeoutSec questionFile responseFile w"

definition poll :: "int \<Rightarrow> int \<Rightarrow> string \<Rightarrow> string \<Rightarrow> schedule \<Rightarrow> world \<Rightarrow> tick \<times> world" where
  "poll startTime timeoutSec questionFile responseFile sched w =
     poll_raced startTime timeoutSec questionFile responseFile (unraced sched) w"

definition execute :: "args \<Rightarrow> tool_context \<Rightarrow> nat list \<Rightarrow> schedule \<Rightarrow> world \<Rightarrow> tick \<times> world" where
  "execute a context random sched w =
     execute_raced a context random (unraced sched) (\<lambda>w. w) w"

section \<open>The Responder: the terminal helper\<close>

text \<open>
  \<^verbatim>\<open>getPendingQuestions\<close>: the \<^verbatim>\<open>for\<close> loop pushes what each file parses to and skips a file
  whose read or parse throws. JavaScript's default \<^verbatim>\<open>sort()\<close> orders strings by code
  unit, which is the lexicographic order of \<^typ>\<open>string\<close>.
\<close>

fun read_questions :: "string list \<Rightarrow> json list \<Rightarrow> world \<Rightarrow> json list \<times> world" where
  "read_questions [] questions w = (questions, w)"
| "read_questions (file # fs) questions w =
     (case readJson file w of
        (Inl e, w1) \<Rightarrow> read_questions fs questions w1
      | (Inr data, w1) \<Rightarrow> read_questions fs (questions @ [data]) w1)"

definition getPendingQuestions :: "world \<Rightarrow> (err + json list) \<times> world" where
  "getPendingQuestions w =
     (case ensureIpcDir w of
        (Inl e, w1) \<Rightarrow> (Inl e, w1)
      | (Inr u, w1) \<Rightarrow>
          (case readdirSync w1 of
             (Inl e, w2) \<Rightarrow> (Inl e, w2)
           | (Inr names, w2) \<Rightarrow>
               (case read_questions
                       (sort (filter (\<lambda>f. startsWith f ''question_'' \<and> endsWith f ''.json'') names))
                       [] w2 of
                  (questions, w3) \<Rightarrow> (Inr questions, w3))))"

definition writeResponse :: "string \<Rightarrow> string \<Rightarrow> bool \<Rightarrow> world \<Rightarrow> (err + unit) \<times> world" where
  "writeResponse questionId resp answered w =
     writeFileSync_joined (responseFile_of questionId)
       (Stringify (AResponse
          \<lparr>r_id = questionId, response = resp, responded = answered, r_timestamp = clock w\<rparr>))
       w"

definition printQuestion :: "jsobj \<Rightarrow> world \<Rightarrow> (err + unit) \<times> world" where
  \<comment> \<open>The console block of one question, recorded as \<open>Shown\<close> with the question's id. On a
      record without \<^verbatim>\<open>question\<close>, \<^verbatim>\<open>question.question.split\<close> throws a TypeError.\<close>
  "printQuestion v w =
     (case v of
        AQuestion q \<Rightarrow> (Inr (), log (Shown (q_id q)) w)
      | AResponse r \<Rightarrow> (Inl TypeError, w))"

text \<open>
  \<^verbatim>\<open>promptUser\<close>: the closure \<^verbatim>\<open>prompt\<close> calls itself once for each line that does not
  submit. The lines the human will type are the list \<open>input\<close>, read on from one question
  to the next; when it runs out the promise stays pending. An error thrown by
  \<^verbatim>\<open>writeResponse\<close> is thrown inside the readline callback, where nothing catches it.
\<close>

datatype prompted = Resolved | Pending | Uncaught err

fun prompt :: "jsobj \<Rightarrow> string list \<Rightarrow> nat \<Rightarrow> string list \<Rightarrow> world \<Rightarrow> prompted \<times> string list \<times> world" where
  "prompt q lines emptyLineCount [] w = (Pending, [], w)"
| "prompt q lines emptyLineCount (line # input) w =
     (if line = [] then
        (if emptyLineCount + 1 \<ge> 1 \<and> length lines > 0 then
           (case (if toLowerCase (trim (join lines)) = ''cancel''
                  then writeResponse (obj_id q) [] False w
                  else writeResponse (obj_id q) (trim (join lines)) True w) of
              (Inl e, w1) \<Rightarrow> (Uncaught e, input, w1)
            | (Inr u, w1) \<Rightarrow> (Resolved, input, w1))
         else prompt q lines (emptyLineCount + 1) input w)
      else prompt q (lines @ [line]) 0 input w)"

definition promptUser :: "jsobj \<Rightarrow> string list \<Rightarrow> world \<Rightarrow> prompted \<times> string list \<times> world" where
  "promptUser q input w = prompt q [] 0 input w"

text \<open>
  \<^verbatim>\<open>main\<close>. The state of the process is the set \<^verbatim>\<open>processedQuestions\<close> and the lines still
  to come on standard input. The process ends when \<^verbatim>\<open>main()\<close> rejects (its \<^verbatim>\<open>catch\<close>
  logs the message and calls \<^verbatim>\<open>process.exit(1)\<close>) or on an uncaught error; it is
  \<open>Blocked\<close> while \<^verbatim>\<open>promptUser\<close> waits for a line. On a request file that parses to
  \<^verbatim>\<open>null\<close> the test \<^verbatim>\<open>processedQuestions.has(q.id)\<close> throws a TypeError, which rejects
  \<^verbatim>\<open>main()\<close>. As for the Requester, the
  \<^verbatim>\<open>while (true)\<close> runs against a schedule, one entry for each iteration: what the rest
  of the system does during the sleep that ends it.
\<close>

record responder =
  processedQuestions :: "string set"
  stdin :: "string list"

datatype status = Looping | Blocked | Exited err | Crashed err

fun for_questions :: "json list \<Rightarrow> responder \<Rightarrow> world \<Rightarrow> status \<times> responder \<times> world" where
  "for_questions [] s w = (Looping, s, w)"
| "for_questions (Null # questions) s w = (Exited TypeError, s, w)"
| "for_questions (Object q # questions) s w =
     (if obj_id q \<in> processedQuestions s then for_questions questions s w
      else
        (let s1 = s\<lparr>processedQuestions := insert (obj_id q) (processedQuestions s)\<rparr> in
         case printQuestion q w of
           (Inl e, w1) \<Rightarrow> (Exited e, s1, w1)
         | (Inr u, w1) \<Rightarrow>
             (case promptUser q (stdin s1) w1 of
                (Resolved, rest, w2) \<Rightarrow> for_questions questions (s1\<lparr>stdin := rest\<rparr>) w2
              | (Pending, rest, w2) \<Rightarrow> (Blocked, s1\<lparr>stdin := rest\<rparr>, w2)
              | (Uncaught e, rest, w2) \<Rightarrow> (Crashed e, s1\<lparr>stdin := rest\<rparr>, w2))))"

fun main_loop :: "(world \<Rightarrow> world) list \<Rightarrow> responder \<Rightarrow> world \<Rightarrow> status \<times> responder \<times> world" where
  "main_loop [] s w = (Looping, s, w)"
| "main_loop (env # sched) s w =
     (case getPendingQuestions w of
        (Inl e, w1) \<Rightarrow> (Exited e, s, w1)
      | (Inr questions, w1) \<Rightarrow>
          (case for_questions questions s w1 of
             (Looping, s2, w2) \<Rightarrow> main_loop sched s2 (interfere env w2)
           | (Blocked, s2, w2) \<Rightarrow> (Blocked, s2, w2)
           | (Exited e, s2, w2) \<Rightarrow> (Exited e, s2, w2)
           | (Crashed e, s2, w2) \<Rightarrow> (Crashed e, s2, w2)))"

definition main :: "(world \<Rightarrow> world) list \<Rightarrow> string list \<Rightarrow> world \<Rightarrow> status \<times> responder \<times> world" where
  "main sched input w = main_loop sched \<lparr>processedQuestions = {}, stdin = input\<rparr> w"

text \<open>The Responder as the environment of a Requester: one scan on a given input.\<close>

definition responder_scans :: "string list \<Rightarrow> world \<Rightarrow> world" where
  \<comment> \<open>What a Responder started on an input does to the mailbox in one scan.\<close>
  "responder_scans input w = snd (snd (main [\<lambda>w. w] input w))"

section \<open>Observations on a run\<close>

text \<open>
  \<open>new_events w w'\<close> is what a program did between the worlds \<open>w\<close> and \<open>w'\<close>.
  \<open>scan_effect\<close> holds of the operations that look at the mailbox or create its
  directory; \<open>responder_effect\<close> holds of every operation but a deletion and a write of a
  file that is not named like a reply. \<open>parsed_file w f\<close> is the record that a scan gets
  from the file \<open>f\<close>, if the file can be read and parses. \<open>extends_by P w w'\<close> says that
  the program got from \<open>w\<close> to \<open>w'\<close> by operations that all satisfy \<open>P\<close>,
  \<open>nothing_removed w w'\<close> that the directory and every file of \<open>w\<close> are still there in
  \<open>w'\<close>, and \<open>mailbox_kept w w'\<close> that, moreover, the files that are not named like a
  reply have the text they had. \<open>records vs\<close> are the records of a scan up to its first
  \<^verbatim>\<open>null\<close>, where the \<^verbatim>\<open>for\<close> loop of \<^verbatim>\<open>main\<close> stops.
\<close>

definition new_events :: "world \<Rightarrow> world \<Rightarrow> effect list" where
  "new_events w w' = drop (length (trace w)) (trace w')"

definition responder_effect :: "effect \<Rightarrow> bool" where
  "responder_effect e =
     (case e of
        Unlink f \<Rightarrow> False
      | WriteFile f \<Rightarrow> startsWith f ''response_'' \<and> endsWith f ''.json''
      | _ \<Rightarrow> True)"

definition parsed_file :: "world \<Rightarrow> string \<Rightarrow> json option" where
  "parsed_file w f =
     (if ReadFile f \<in> set (failing w) then None
      else case map_of (files w) f of
             Some (Stringify v) \<Rightarrow> Some (Object v)
           | Some NullText \<Rightarrow> Some Null
           | _ \<Rightarrow> None)"

fun records :: "json list \<Rightarrow> jsobj list" where
  "records [] = []"
| "records (Null # vs) = []"
| "records (Object v # vs) = v # records vs"

definition scan_effect :: "effect \<Rightarrow> bool" where
  "scan_effect e =
     (case e of
        ExistsDir \<Rightarrow> True
      | Mkdir \<Rightarrow> True
      | Readdir \<Rightarrow> True
      | ReadFile f \<Rightarrow> True
      | _ \<Rightarrow> False)"

definition extends_by :: "(effect \<Rightarrow> bool) \<Rightarrow> world \<Rightarrow> world \<Rightarrow> bool" where
  "extends_by P w w' = (\<exists>evs. trace w' = trace w @ evs \<and> list_all P evs)"

definition nothing_removed :: "world \<Rightarrow> world \<Rightarrow> bool" where
  "nothing_removed w w' =
     ((dir_exists w \<longrightarrow> dir_exists w')
      \<and> (\<forall>f. map_of (files w) f \<noteq> None \<longrightarrow> map_of (files w') f \<noteq> None))"

definition mailbox_kept :: "world \<Rightarrow> world \<Rightarrow> bool" where
  "mailbox_kept w w' =
     ((dir_exists w \<longrightarrow> dir_exists w')
      \<and> (\<forall>f. map_of (files w) f \<noteq> None \<longrightarrow> map_of (files w') f \<noteq> None)
      \<and> (\<forall>f. \<not> (startsWith f ''response_'' \<and> endsWith f ''.json'') \<longrightarrow>
                map_of (files w') f = map_of (files w) f))"

text \<open>
  \<open>shown_ids\<close> are the ids of the questions presented, in the order of presentation.
  \<open>unseen P ids\<close> are the ids of \<open>ids\<close> that are not in the set \<open>P\<close>, each once, at its first
  place. \<open>answered_all\<close> holds of a run in which every presentation is followed at once
  by the write of the reply file of the question presented; \<open>one_at_a_time\<close> allows the
  last presentation to be without its write yet.
\<close>

fun shown_ids :: "effect list \<Rightarrow> string list" where
  "shown_ids [] = []"
| "shown_ids (Shown i # es) = i # shown_ids es"
| "shown_ids (e # es) = shown_ids es"

fun unseen :: "string set \<Rightarrow> string list \<Rightarrow> string list" where
  "unseen P [] = []"
| "unseen P (i # is) = (if i \<in> P then unseen P is else i # unseen (insert i P) is)"

fun answered_all :: "effect list \<Rightarrow> bool" where
  "answered_all [] = True"
| "answered_all [Shown i] = False"
| "answered_all (Shown i # e # es) = (e = WriteFile (responseFile_of i) \<and> answered_all es)"
| "answered_all (e # es) = answered_all es"

fun one_at_a_time :: "effect list \<Rightarrow> bool" where
  "one_at_a_time [] = True"
| "one_at_a_time [Shown i] = True"
| "one_at_a_time (Shown i # e # es) = (e = WriteFile (responseFile_of i) \<and> one_at_a_time es)"
| "one_at_a_time (e # es) = one_at_a_time es"

section \<open>Example data\<close>

text \<open>Concrete records and worlds, on which the theorems below are instantiated.\<close>

definition ex_question :: Question where
  "ex_question =
     \<lparr>q_id = ''q1'', question = ''Which option?'', title = None, sessionID = ''s'',
      messageID = ''m'', q_timestamp = 1000\<rparr>"

definition ex_reply :: Response where
  "ex_reply =
     \<lparr>r_id = ''q1'', response = ''Use option B'', responded = True, r_timestamp = 1200\<rparr>"

definition w_asked :: world where
  \<comment> \<open>The request of \<open>ex_question\<close> is outstanding.\<close>
  "w_asked =
     \<lparr>dir_exists = True,
      files = [(''question_q1.json'', Stringify (AQuestion ex_question))],
      failing = [], clock = 1500, trace = []\<rparr>"

definition w_partial :: world where
  \<comment> \<open>The reply file exists and does not parse yet.\<close>
  "w_partial =
     \<lparr>dir_exists = True,
      files = [(''question_q1.json'', Stringify (AQuestion ex_question)),
               (''response_q1.json'', Partial)],
      failing = [], clock = 1500, trace = []\<rparr>"

definition w_replied :: world where
  \<comment> \<open>The reply file holds an answer.\<close>
  "w_replied =
     \<lparr>dir_exists = True,
      files = [(''question_q1.json'', Stringify (AQuestion ex_question)),
               (''response_q1.json'', Stringify (AResponse ex_reply))],
      failing = [], clock = 1500, trace = []\<rparr>"

definition w_orphan :: world where
  \<comment> \<open>The request file is gone already, an answer is there.\<close>
  "w_orphan =
     \<lparr>dir_exists = True,
      files = [(''response_q1.json'', Stringify (AResponse ex_reply))],
      failing = [], clock = 1500, trace = []\<rparr>"

definition w_empty :: world where
  "w_empty = \<lparr>dir_exists = True, files = [], failing = [], clock = 1500, trace = []\<rparr>"

definition ex_args :: args where
  "ex_args = \<lparr>arg_question = ''Which option?'', arg_title = None, arg_timeout = Some 1\<rparr>"

definition ex_context :: tool_context where
  "ex_context = \<lparr>ctx_sessionID = ''s'', ctx_messageID = ''m''\<rparr>"


definition w_unlistable :: world where
  \<comment> \<open>A request is outstanding and the directory cannot be listed.\<close>
  "w_unlistable =
     \<lparr>dir_exists = True,
      files = [(''question_q1.json'', Stringify (AQuestion ex_question))],
      failing = [Readdir], clock = 1500, trace = []\<rparr>"

definition ex_question2 :: Question where
  "ex_question2 =
     \<lparr>q_id = ''q2'', question = ''Which colour?'', title = Some ''Paint'', sessionID = ''s'',
      messageID = ''m2'', q_timestamp = 1100\<rparr>"

definition w_mixed :: world where
  \<comment> \<open>Three request files: one cannot be read, one is half written, one is complete.\<close>
  "w_mixed =
     \<lparr>dir_exists = True,
      files = [(''question_q2.json'', Stringify (AQuestion ex_question2)),
               (''question_q0.json'', Partial),
               (''notes.txt'', Partial),
               (''question_q1.json'', Stringify (AQuestion ex_question))],
      failing = [ReadFile ''question_q2.json''], clock = 1500, trace = []\<rparr>"

definition w_two :: world where
  \<comment> \<open>Two requests are outstanding; the directory lists the later one first.\<close>
  "w_two =
     \<lparr>dir_exists = True,
      files = [(''question_q2.json'', Stringify (AQuestion ex_question2)),
               (''question_q1.json'', Stringify (AQuestion ex_question))],
      failing = [], clock = 1500, trace = []\<rparr>"

definition w_null :: world where
  \<comment> \<open>The reply file holds the text \<^verbatim>\<open>null\<close>.\<close>
  "w_null =
     \<lparr>dir_exists = True,
      files = [(''question_q1.json'', Stringify (AQuestion ex_question)),
               (''response_q1.json'', NullText)],
      failing = [], clock = 1500, trace = []\<rparr>"

definition late_reply :: "world \<Rightarrow> world" where
  \<comment> \<open>A reply to the request of id \<^verbatim>\<open>q_1500_abc\<close> appears in the mailbox.\<close>
  "late_reply w =
     w\<lparr>files := files w @
         [(''response_q_1500_abc.json'',
           Stringify (AResponse \<lparr>r_id = ''q_1500_abc'', response = ''late'', responded = True,
                                   r_timestamp = 1600\<rparr>))]\<rparr>"

definition request_vanishes :: "world \<Rightarrow> world" where
  \<comment> \<open>Another process removes the request file of id \<^verbatim>\<open>q_1500_abc\<close>.\<close>
  "request_vanishes w = w\<lparr>files := AList.delete ''question_q_1500_abc.json'' (files w)\<rparr>"

definition ex_traversal :: Question where
  \<comment> \<open>A request record whose id holds path separators.\<close>
  "ex_traversal =
     \<lparr>q_id = ''x/../question_q1'', question = ''Which option?'', title = None,
      sessionID = ''s'', messageID = ''m'', q_timestamp = 900\<rparr>"

definition w_traversal :: world where
  \<comment> \<open>The request of \<open>ex_question\<close> and the request of \<open>ex_traversal\<close> are outstanding.\<close>
  "w_traversal =
     \<lparr>dir_exists = True,
      files = [(''question_a.json'', Stringify (AQuestion ex_traversal)),
               (''question_q1.json'', Stringify (AQuestion ex_question))],
      failing = [], clock = 1500, trace = []\<rparr>"

section \<open>Lemmas\<close>

subsection \<open>The run without races\<close>

lemma interfere_id: "interfere (\<lambda>w. w) w = w"
  by (simp add: interfere_def)

lemma unlink_if_exists_alone:
  "unlink_if_exists (\<lambda>w. w) f w =
     (case existsSync f w of
        (True, w1) \<Rightarrow> unlinkSync f w1
      | (False, w1) \<Rightarrow> (Inr (), w1))"
  by (simp add: unlink_if_exists_def interfere_id split: prod.splits bool.splits)

lemma poll_tick_unfold:
  "poll_tick aborted startTime timeoutSec questionFile responseFile w =
     (if aborted then
        (case unlink_if_exists (\<lambda>w. w) questionFile w of
           (Inl e, w1) \<Rightarrow> (Throw e, w1)
         | (Inr u, w1) \<Rightarrow> (Return aborted_outcome, w1))
      else if clock w - startTime > timeoutSec * 1000 then
        (case unlink_if_exists (\<lambda>w. w) questionFile w of
           (Inl e, w1) \<Rightarrow> (Throw e, w1)
         | (Inr u, w1) \<Rightarrow> (Return (timeout_outcome timeoutSec), w1))
      else
        (case existsSync responseFile w of
           (False, w1) \<Rightarrow> (Continue, w1)
         | (True, w1) \<Rightarrow>
             (case readJson responseFile w1 of
                (Inl e, w2) \<Rightarrow> (Continue, w2)
              | (Inr responseData, w2) \<Rightarrow>
                  (case unlink_if_exists (\<lambda>w. w) questionFile w2 of
                     (Inl e, w3) \<Rightarrow> (Continue, w3)
                   | (Inr u, w3) \<Rightarrow>
                       (case unlinkSync responseFile w3 of
                          (Inl e, w4) \<Rightarrow> (Continue, w4)
                        | (Inr u', w4) \<Rightarrow>
                            (case responseData of
                               Null \<Rightarrow> (Continue, w4)
                             | Object v \<Rightarrow>
                                 (if obj_responded v
                                  then (Return (answered_outcome (obj_response v)), w4)
                                  else (Return user_cancelled_outcome, w4))))))))"
  by (simp add: poll_tick_def poll_tick_raced_def)

lemma poll_Nil [simp]: "poll startTime timeoutSec questionFile responseFile [] w = (Continue, w)"
  by (simp add: poll_def unraced_def)

lemma poll_Cons [simp]:
  "poll startTime timeoutSec questionFile responseFile ((aborted, env) # sched) w =
     (case poll_tick aborted startTime timeoutSec questionFile responseFile w of
        (Continue, w1) \<Rightarrow>
          poll startTime timeoutSec questionFile responseFile sched (interfere env w1)
      | (Return r, w1) \<Rightarrow> (Return r, w1)
      | (Throw e, w1) \<Rightarrow> (Throw e, w1))"
  by (simp add: poll_def unraced_def poll_tick_def split: prod.splits tick.splits)

lemma execute_unfold:
  "execute a context random sched w =
     (case ensureIpcDir w of
        (Inl e, w1) \<Rightarrow> (Throw e, w1)
      | (Inr u, w1) \<Rightarrow>
          (let questionId = generateQuestionId (clock w1) random;
               timeoutSec = (case arg_timeout a of None \<Rightarrow> DEFAULT_TIMEOUT_SEC | Some t \<Rightarrow> t);
               questionData =
                 \<lparr>q_id = questionId, question = arg_question a, title = arg_title a,
                  sessionID = ctx_sessionID context, messageID = ctx_messageID context,
                  q_timestamp = clock w1\<rparr>;
               questionFile = questionFile_of questionId;
               responseFile = responseFile_of questionId
           in case writeFileSync questionFile (Stringify (AQuestion questionData)) w1 of
                (Inl e, w2) \<Rightarrow> (Throw e, w2)
              | (Inr u', w2) \<Rightarrow>
                  (case poll (clock w2) timeoutSec questionFile responseFile sched w2 of
                     (Throw error, w3) \<Rightarrow>
                       cleanup_on_error (\<lambda>w. w) error questionFile responseFile w3
                   | (Continue, w3) \<Rightarrow> (Continue, w3)
                   | (Return r, w3) \<Rightarrow> (Return r, w3))))"
  by (simp add: execute_def execute_raced_def poll_def Let_def split: prod.splits sum.splits tick.splits)


subsection \<open>File operations and one iteration of the poll\<close>

lemmas fs_defs = existsSync_def existsSync_dir_def mkdirSync_def readdirSync_def readFileSync_def
  writeFileSync_def unlinkSync_def readJson_def ensureIpcDir_def unlink_if_exists_alone log_def JSON_parse_def

lemma file_names_differ: "questionFile_of i \<noteq> responseFile_of j"
  by (simp add: questionFile_of_def responseFile_of_def)

lemma unlink_if_exists_absent:
  "\<not> present f w \<Longrightarrow> unlink_if_exists (\<lambda>w. w) f w = (Inr (), w\<lparr>trace := trace w @ [Exists f]\<rparr>)"
  by (simp add: fs_defs)

lemma unlink_if_exists_present:
  "present f w \<Longrightarrow> unlink_if_exists (\<lambda>w. w) f w =
     (if Unlink f \<in> set (failing w)
      then (Inl EIO, w\<lparr>trace := trace w @ [Exists f, Unlink f]\<rparr>)
      else (Inr (), w\<lparr>files := AList.delete f (files w), trace := trace w @ [Exists f, Unlink f]\<rparr>))"
  by (simp add: fs_defs present_def)


lemma poll_tick_terminal:
  assumes "ab \<or> clock w - st > ts * 1000"
  shows "poll_tick ab st ts qf rf w =
     (if present qf w \<and> Unlink qf \<in> set (failing w) then Throw EIO
      else Return (if ab then aborted_outcome else timeout_outcome ts),
      w\<lparr>files := (if present qf w \<and> Unlink qf \<notin> set (failing w)
                  then AList.delete qf (files w) else files w),
        trace := trace w @ (if present qf w then [Exists qf, Unlink qf] else [Exists qf])\<rparr>)"
proof (cases "present qf w")
  case True
  with assms show ?thesis
    by (auto simp add: poll_tick_unfold unlink_if_exists_present)
next
  case False
  with assms show ?thesis
    by (auto simp add: poll_tick_unfold unlink_if_exists_absent)
qed

subsection \<open>The polling loop and \<open>execute\<close>\<close>


lemma poll_Return_split:
  assumes "poll st ts qf rf sched w = (Return r, w')"
  shows "\<exists>pre ab env post wk. sched = pre @ (ab, env) # post
           \<and> poll st ts qf rf pre w = (Continue, wk)
           \<and> poll_tick ab st ts qf rf wk = (Return r, w')"
  using assms
proof (induction sched arbitrary: w)
  case Nil
  then show ?case by simp
next
  case (Cons x sched)
  obtain ab env where x: "x = (ab, env)" by (cases x)
  obtain t w1 where t: "poll_tick ab st ts qf rf w = (t, w1)" by (cases "poll_tick ab st ts qf rf w")
  show ?case
  proof (cases t)
    case Continue
    with Cons.prems x t have "poll st ts qf rf sched (interfere env w1) = (Return r, w')" by simp
    from Cons.IH[OF this] obtain pre ab' env' post wk where
      h: "sched = pre @ (ab', env') # post" "poll st ts qf rf pre (interfere env w1) = (Continue, wk)"
         "poll_tick ab' st ts qf rf wk = (Return r, w')" by blast
    have "x # sched = ((ab, env) # pre) @ (ab', env') # post" using h(1) x by simp
    moreover have "poll st ts qf rf ((ab, env) # pre) w = (Continue, wk)"
      using t Continue h(2) by simp
    ultimately show ?thesis using h(3) by blast
  next
    case (Return r')
    with Cons.prems x t have "r' = r" "w1 = w'" by simp_all
    with Return t x have "x # sched = [] @ (ab, env) # sched" "poll st ts qf rf [] w = (Continue, w)"
      "poll_tick ab st ts qf rf w = (Return r, w')" by simp_all
    then show ?thesis by blast
  next
    case (Throw e)
    with Cons.prems x t show ?thesis by simp
  qed
qed

lemma outcomes_differ:
  "aborted_outcome \<noteq> user_cancelled_outcome" "timeout_outcome ts \<noteq> user_cancelled_outcome"
  "aborted_outcome \<noteq> answered_outcome x" "timeout_outcome ts \<noteq> answered_outcome x"
  "aborted_outcome \<noteq> timeout_outcome ts"
  by (simp_all add: aborted_outcome_def user_cancelled_outcome_def timeout_outcome_def answered_outcome_def)

lemma poll_tick_Return_terminal:
  assumes "poll_tick ab st ts qf rf w = (Return r, w')" "r = aborted_outcome \<or> r = timeout_outcome ts"
  shows "ab \<or> clock w - st > ts * 1000"
proof (rule ccontr)
  assume n: "\<not> (ab \<or> clock w - st > ts * 1000)"
  with assms(1) have "r = user_cancelled_outcome \<or> (\<exists>x. r = answered_outcome x)"
    by (auto simp add: poll_tick_unfold split: json.splits prod.splits sum.splits if_splits bool.splits)
  with assms(2) show False using outcomes_differ by metis
qed



lemma poll_Throw_EIO:
  "poll st ts qf rf sched w = (Throw e, w') \<Longrightarrow> e = EIO"
proof (induction sched arbitrary: w)
  case Nil
  then show ?case by simp
next
  case (Cons x sched)
  obtain ab env where x: "x = (ab, env)" by (cases x)
  obtain t w1 where t: "poll_tick ab st ts qf rf w = (t, w1)" by (cases "poll_tick ab st ts qf rf w")
  show ?case
  proof (cases t)
    case Continue
    with Cons.prems x t have "poll st ts qf rf sched (interfere env w1) = (Throw e, w')" by simp
    then show ?thesis by (rule Cons.IH)
  next
    case (Return r)
    with Cons.prems x t show ?thesis by simp
  next
    case (Throw e')
    with Cons.prems x t have e: "e' = e" by simp
    show ?thesis
    proof (cases "ab \<or> clock w - st > ts * 1000")
      case True
      from poll_tick_terminal[OF True, of qf rf] t Throw e show ?thesis
        by (auto split: if_splits)
    next
      case False
      with t Throw show ?thesis
        by (auto simp add: poll_tick_unfold split: json.splits prod.splits sum.splits if_splits bool.splits)
    qed
  qed
qed

lemma cleanup_on_error_EIO:
  "cleanup_on_error (\<lambda>w. w) e qf rf w = (t, w') \<Longrightarrow> t = Throw e \<or> t = Throw EIO"
  by (auto simp add: cleanup_on_error_def fs_defs present_def split: prod.splits sum.splits if_splits bool.splits)

lemma ensureIpcDir_result:
  "ensureIpcDir w = (Inl e, w') \<Longrightarrow> e = EIO"
  "ensureIpcDir w = (Inr u, w') \<Longrightarrow> dir_exists w'"
  by (auto simp add: fs_defs split: if_splits bool.splits)

lemma execute_Throw_EIO:
  assumes "execute a c rnd sched w = (Throw e, w')"
  shows "e = EIO"
proof -
  obtain r1 w1 where e1: "ensureIpcDir w = (r1, w1)" by (cases "ensureIpcDir w")
  show ?thesis
  proof (cases r1)
    case (Inl e1')
    with assms e1 ensureIpcDir_result(1)[of w e1' w1] show ?thesis
      by (simp add: execute_unfold)
  next
    case (Inr u)
    with e1 have d: "dir_exists w1" using ensureIpcDir_result(2) by blast
    define qid where "qid = generateQuestionId (clock w1) rnd"
    define ts where "ts = (case arg_timeout a of None \<Rightarrow> DEFAULT_TIMEOUT_SEC | Some t \<Rightarrow> t)"
    define qd where "qd = \<lparr>q_id = qid, question = arg_question a, title = arg_title a,
                  sessionID = ctx_sessionID c, messageID = ctx_messageID c,
                  q_timestamp = clock w1\<rparr>"
    obtain r2 w2 where e2: "writeFileSync (questionFile_of qid) (Stringify (AQuestion qd)) w1 = (r2, w2)"
      by (cases "writeFileSync (questionFile_of qid) (Stringify (AQuestion qd)) w1")
    show ?thesis
    proof (cases r2)
      case (Inl e2')
      with e2 d have "e2' = EIO" by (auto simp add: fs_defs split: if_splits)
      with assms e1 Inr e2 Inl show ?thesis
        by (simp add: execute_unfold Let_def qid_def ts_def qd_def)
    next
      case (Inr u')
      obtain t3 w3 where e3: "poll (clock w2) ts (questionFile_of qid) (responseFile_of qid) sched w2 = (t3, w3)"
        by (cases "poll (clock w2) ts (questionFile_of qid) (responseFile_of qid) sched w2")
      show ?thesis
      proof (cases t3)
        case Continue
        with assms e1 \<open>r1 = Inr u\<close> e2 Inr e3 show ?thesis
          by (simp add: execute_unfold Let_def qid_def ts_def qd_def)
      next
        case (Return r)
        with assms e1 \<open>r1 = Inr u\<close> e2 Inr e3 show ?thesis
          by (simp add: execute_unfold Let_def qid_def ts_def qd_def)
      next
        case (Throw e3')
        with e3 have "e3' = EIO" using poll_Throw_EIO by blast
        moreover from assms e1 \<open>r1 = Inr u\<close> e2 Inr e3 Throw
        have "cleanup_on_error (\<lambda>w. w) e3' (questionFile_of qid) (responseFile_of qid) w3 = (Throw e, w')"
          by (simp add: execute_unfold Let_def qid_def ts_def qd_def)
        ultimately show ?thesis using cleanup_on_error_EIO by blast
      qed
    qed
  qed
qed





subsection \<open>Input collection\<close>

lemma prompt_counter_irrelevant:
  "prompt q acc k input w = prompt q acc 0 input w"
proof (induction input arbitrary: acc k)
  case Nil
  show ?case by simp
next
  case (Cons line input)
  show ?case
  proof (cases "line = []")
    case True
    show ?thesis
    proof (cases "acc = []")
      case True
      with \<open>line = []\<close> Cons.IH[of acc "k + 1"] Cons.IH[of acc 1] show ?thesis by simp
    next
      case False
      with \<open>line = []\<close> show ?thesis by simp
    qed
  next
    case False
    then show ?thesis by simp
  qed
qed

lemma prompt_leading_empty:
  "prompt q [] k (replicate n [] @ later) w = prompt q [] 0 later w"
proof (induction n arbitrary: k)
  case 0
  show ?case using prompt_counter_irrelevant[of q "[]" k later w] by simp
next
  case (Suc n)
  show ?case using Suc.IH[of "k + 1"] by simp
qed

lemma prompt_lines:
  "[] \<notin> set ls \<Longrightarrow> prompt q acc k (ls @ later) w = prompt q (acc @ ls) 0 later w"
proof (induction ls arbitrary: acc k)
  case Nil
  show ?case using prompt_counter_irrelevant[of q acc k later w] by simp
next
  case (Cons l ls)
  then have "l \<noteq> []" "[] \<notin> set ls" by auto
  with Cons.IH[of "acc @ [l]" 0] show ?case by simp
qed

lemma promptUser_pending:
  assumes "[] \<notin> set ls"
  shows "promptUser q (replicate n [] @ ls) w = (Pending, [], w)"
proof -
  have "promptUser q (replicate n [] @ ls) w = prompt q [] 0 (ls @ []) w"
    by (simp add: promptUser_def prompt_leading_empty)
  also have "\<dots> = prompt q ([] @ ls) 0 [] w"
    using assms by (rule prompt_lines)
  finally show ?thesis by simp
qed

lemma promptUser_submit:
  assumes "ls \<noteq> []" "[] \<notin> set ls"
  shows "promptUser q (replicate n [] @ ls @ [] # rest) w =
     (case (if toLowerCase (trim (join ls)) = ''cancel''
            then writeResponse (obj_id q) [] False w
            else writeResponse (obj_id q) (trim (join ls)) True w) of
        (Inl e, w1) \<Rightarrow> (Uncaught e, rest, w1)
      | (Inr u, w1) \<Rightarrow> (Resolved, rest, w1))"
proof -
  have "promptUser q (replicate n [] @ ls @ [] # rest) w = prompt q [] 0 (ls @ [] # rest) w"
    by (simp add: promptUser_def prompt_leading_empty)
  also have "\<dots> = prompt q ([] @ ls) 0 ([] # rest) w"
    using assms(2) by (rule prompt_lines)
  finally show ?thesis using assms(1) by simp
qed

subsection \<open>Paths\<close>

lemma split_path_plain: "CHR ''/'' \<notin> set cs \<Longrightarrow> split_path seg cs = [seg @ cs]"
  by (induction cs arbitrary: seg) auto

lemma path_join_plain:
  assumes "CHR ''/'' \<notin> set name" "name \<noteq> []" "name \<noteq> ''.''" "name \<noteq> ''..''"
  shows "path_join dir name = dir @ [name]"
  using assms by (simp add: path_join_def split_path_plain)

lemma IPC_DIR_segments: "IPC_DIR = [''home'', ''user'', ''.opencode'', ''ask_user'']"
  by (simp add: IPC_DIR_def path_join_def homedir_def)

lemma path_join_entry:
  assumes "CHR ''/'' \<notin> set i"
  shows "path_join IPC_DIR (questionFile_of i) = IPC_DIR @ [questionFile_of i]"
    and "path_join IPC_DIR (responseFile_of i) = IPC_DIR @ [responseFile_of i]"
  using assms by (simp_all add: path_join_plain questionFile_of_def responseFile_of_def)

lemma writeFileSync_joined_entry:
  assumes "path_join IPC_DIR name = IPC_DIR @ [name]" "CHR 0x00 \<notin> set name"
  shows "writeFileSync_joined name t w = writeFileSync name t w"
  using assms by (simp add: writeFileSync_joined_def writeFileSync_def Let_def)

lemma writeFileSync_joined_trace:
  "trace (snd (writeFileSync_joined name t w)) = trace w @ [WriteFile name]"
  by (simp add: writeFileSync_joined_def Let_def log_def)

lemma decimal_digits: "set (decimal n) \<subseteq> set ''0123456789''"
proof (induction n rule: decimal.induct)
  case (1 n)
  show ?case
  proof (cases "n < 10")
    case True
    then have "''0123456789'' ! n \<in> set ''0123456789''" by (intro nth_mem) simp
    with True show ?thesis by (subst decimal.simps) (simp del: decimal.simps)
  next
    case False
    have "n mod 10 < 10" by simp
    then have "''0123456789'' ! (n mod 10) \<in> set ''0123456789''" by (intro nth_mem) simp
    with False 1 show ?thesis by (subst decimal.simps) (simp del: decimal.simps)
  qed
qed

lemma toString36_digits:
  "set (toString36 ds) \<subseteq> set ''0123456789abcdefghijklmnopqrstuvwxyz''"
proof -
  have "''0123456789abcdefghijklmnopqrstuvwxyz'' ! (d mod 36)
          \<in> set ''0123456789abcdefghijklmnopqrstuvwxyz''" for d :: nat
    by (intro nth_mem) simp
  then show ?thesis by (auto simp add: toString36_def simp del: set_simps)
qed

lemma generateQuestionId_plain: "plain_id (generateQuestionId t r)"
  unfolding plain_id_def
  using decimal_digits[of "nat t"] decimal_digits[of "nat (- t)"] toString36_digits[of "take 7 r"]
  by (auto simp add: generateQuestionId_def show_int_def simp del: decimal.simps)

subsection \<open>The write of a reply\<close>

lemma writeResponse_trace:
  "trace (snd (writeResponse i r a w)) = trace w @ [WriteFile (responseFile_of i)]"
  by (simp add: writeResponse_def writeFileSync_joined_trace)

lemma writeResponse_entry:
  assumes "plain_id i"
  shows "writeResponse i r a w =
     writeFileSync (responseFile_of i)
       (Stringify (AResponse \<lparr>r_id = i, response = r, responded = a, r_timestamp = clock w\<rparr>)) w"
proof -
  from assms have s: "CHR ''/'' \<notin> set i" and n: "CHR 0x00 \<notin> set i"
    by (simp_all add: plain_id_def)
  have "CHR 0x00 \<notin> set (responseFile_of i)" using n by (simp add: responseFile_of_def)
  with path_join_entry(2)[OF s] show ?thesis
    by (simp add: writeResponse_def writeFileSync_joined_entry)
qed

lemma writeResponse_ok:
  assumes "dir_exists w" "WriteFile (responseFile_of i) \<notin> set (failing w)" "plain_id i"
  shows "writeResponse i r a w =
     (Inr (), w\<lparr>files := AList.update (responseFile_of i)
                   (Stringify (AResponse \<lparr>r_id = i, response = r, responded = a,
                                            r_timestamp = clock w\<rparr>)) (files w),
                trace := trace w @ [WriteFile (responseFile_of i)]\<rparr>)"
  using assms by (simp add: writeResponse_entry fs_defs)

subsection \<open>A reply that parses, and a Responder scanning between two polls\<close>

lemma poll_tick_reply:
  assumes "present rf w" "map_of (files w) rf = Some (Stringify v)"
      and "\<not> clock w - st > ts * 1000"
      and "ReadFile rf \<notin> set (failing w)" "Unlink rf \<notin> set (failing w)"
      and "Unlink qf \<notin> set (failing w)" "qf \<noteq> rf"
  shows "poll_tick False st ts qf rf w =
     (Return (if obj_responded v then answered_outcome (obj_response v)
              else user_cancelled_outcome),
      w\<lparr>files := AList.delete rf (if present qf w then AList.delete qf (files w) else files w),
        trace := trace w @ [Exists rf, ReadFile rf] @
                 (if present qf w then [Exists qf, Unlink qf] else [Exists qf]) @ [Unlink rf]\<rparr>)"
proof (cases "present qf w")
  case True
  with assms show ?thesis
    by (simp add: poll_tick_unfold fs_defs present_def delete_conv')
next
  case False
  with assms show ?thesis
    by (simp add: poll_tick_unfold fs_defs present_def)
qed

lemma poll_tick_reason:
  assumes "poll_tick ab st ts qf rf w = (Return r, w')"
  shows "(reason r \<noteq> None) = cancelled r"
proof -
  from assms have "r = aborted_outcome \<or> r = timeout_outcome ts \<or> r = user_cancelled_outcome
      \<or> (\<exists>x. r = answered_outcome x)"
    by (auto simp add: poll_tick_unfold split: json.splits prod.splits sum.splits if_splits bool.splits)
  then show ?thesis
    by (auto simp add: aborted_outcome_def timeout_outcome_def user_cancelled_outcome_def
          answered_outcome_def)
qed

lemma startsWith_questionFile: "startsWith (questionFile_of i) ''question_''"
  by (simp add: startsWith_def questionFile_of_def)

lemma endsWith_questionFile: "endsWith (questionFile_of i) ''.json''"
  by (simp add: endsWith_def questionFile_of_def)

lemma responder_scans_one_question:
  assumes "dir_exists w" "failing w = []"
      and "files w = [(questionFile_of (q_id q), Stringify (AQuestion q))]"
      and "ls \<noteq> []" "[] \<notin> set ls" "plain_id (q_id q)"
  shows "\<exists>t. responder_scans (replicate n [] @ ls @ [] # rest) w =
     w\<lparr>files := [(questionFile_of (q_id q), Stringify (AQuestion q)),
                  (responseFile_of (q_id q),
                   Stringify (AResponse
                     \<lparr>r_id = q_id q,
                      response = (if toLowerCase (trim (join ls)) = ''cancel'' then []
                                  else trim (join ls)),
                      responded = (toLowerCase (trim (join ls)) \<noteq> ''cancel''),
                      r_timestamp = clock w\<rparr>))],
       trace := t\<rparr>"
proof -
  define r where "r = (if toLowerCase (trim (join ls)) = ''cancel'' then [] else trim (join ls))"
  define a where "a = (toLowerCase (trim (join ls)) \<noteq> ''cancel'')"
  define w1 where "w1 = w\<lparr>trace := trace w @ [ExistsDir, Readdir, ReadFile (questionFile_of (q_id q))]\<rparr>"
  have g: "getPendingQuestions w = (Inr [Object (AQuestion q)], w1)"
    using assms(1-3)
    by (simp add: getPendingQuestions_def fs_defs startsWith_questionFile endsWith_questionFile w1_def)
  define w2 where "w2 = w1\<lparr>trace := trace w1 @ [Shown (q_id q)]\<rparr>"
  have d2: "dir_exists w2" "failing w2 = []" "files w2 = files w" "clock w2 = clock w"
    using assms(1-3) by (simp_all add: w2_def w1_def)
  define w3 where "w3 = w2\<lparr>files := AList.update (responseFile_of (q_id q))
                   (Stringify (AResponse \<lparr>r_id = q_id q, response = r, responded = a,
                                            r_timestamp = clock w2\<rparr>)) (files w2),
                trace := trace w2 @ [WriteFile (responseFile_of (q_id q))]\<rparr>"
  have wr: "writeResponse (q_id q) r a w2 = (Inr (), w3)"
    using writeResponse_ok[of w2 "q_id q" r a] d2 assms(6) by (simp add: w3_def)
  have p: "promptUser (AQuestion q) (replicate n [] @ ls @ [] # rest) w2 = (Resolved, rest, w3)"
    using promptUser_submit[OF assms(4,5), of "AQuestion q" n rest w2] wr
    unfolding r_def a_def
    by (cases "toLowerCase (trim (join ls)) = ''cancel''") (simp_all add: obj_id_def)
  have f: "for_questions [Object (AQuestion q)] \<lparr>processedQuestions = {}, stdin = replicate n [] @ ls @ [] # rest\<rparr> w1
            = (Looping, \<lparr>processedQuestions = {q_id q}, stdin = rest\<rparr>, w3)"
    using p by (simp add: printQuestion_def log_def obj_id_def w2_def Let_def)
  have "responder_scans (replicate n [] @ ls @ [] # rest) w = w3"
    by (simp add: responder_scans_def main_def g f interfere_def del: for_questions.simps)
  moreover have "files w3 = [(questionFile_of (q_id q), Stringify (AQuestion q)),
                  (responseFile_of (q_id q),
                   Stringify (AResponse \<lparr>r_id = q_id q, response = r, responded = a,
                                            r_timestamp = clock w\<rparr>))]"
    using assms(3) d2 file_names_differ by (simp add: w3_def)
  moreover have "w3 = w\<lparr>files := files w3, trace := trace w3\<rparr>"
    by (simp add: w3_def w2_def w1_def)
  ultimately show ?thesis unfolding r_def a_def by metis
qed

lemma ensureIpcDir_clean:
  assumes "failing w = []"
  shows "ensureIpcDir w =
     (Inr (), w\<lparr>dir_exists := True,
               trace := trace w @ (if dir_exists w then [ExistsDir] else [ExistsDir, Mkdir])\<rparr>)"
  using assms by (cases "dir_exists w") (auto simp add: fs_defs intro!: world.equality)

lemma execute_end_to_end:
  assumes "files w0 = []" and "failing w0 = []"
      and "ls \<noteq> []" and "[] \<notin> set ls"
      and "0 \<le> (case arg_timeout a of None \<Rightarrow> DEFAULT_TIMEOUT_SEC | Some t \<Rightarrow> t)"
  shows "fst (execute a c rnd
               ((False, responder_scans (replicate n [] @ ls @ [] # rest)) # (False, env) # sched)
               w0)
         = Return (if toLowerCase (trim (join ls)) = ''cancel'' then user_cancelled_outcome
                   else answered_outcome (trim (join ls)))"
proof -
  define ts where "ts = (case arg_timeout a of None \<Rightarrow> DEFAULT_TIMEOUT_SEC | Some t \<Rightarrow> t)"
  define qid where "qid = generateQuestionId (clock w0) rnd"
  define qd where "qd = \<lparr>q_id = qid, question = arg_question a, title = arg_title a,
                  sessionID = ctx_sessionID c, messageID = ctx_messageID c,
                  q_timestamp = clock w0\<rparr>"
  define qf where "qf = questionFile_of qid"
  define rf where "rf = responseFile_of qid"
  define rr where "rr = \<lparr>r_id = qid,
                      response = (if toLowerCase (trim (join ls)) = ''cancel'' then []
                                  else trim (join ls)),
                      responded = (toLowerCase (trim (join ls)) \<noteq> ''cancel''),
                      r_timestamp = clock w0\<rparr>"
  have qid: "q_id qd = qid" by (simp add: qd_def)
  define t1 where "t1 = trace w0 @ (if dir_exists w0 then [ExistsDir] else [ExistsDir, Mkdir])"
  have e1: "ensureIpcDir w0 = (Inr (), w0\<lparr>dir_exists := True, trace := t1\<rparr>)"
    using ensureIpcDir_clean[OF assms(2)] by (simp add: t1_def)
  define w1 where "w1 = w0\<lparr>dir_exists := True, trace := t1\<rparr>"
  define w2 where "w2 = w1\<lparr>files := [(qf, Stringify (AQuestion qd))], trace := trace w1 @ [WriteFile qf]\<rparr>"
  have e2: "writeFileSync qf (Stringify (AQuestion qd)) w1 = (Inr (), w2)"
    using assms(1,2) by (simp add: fs_defs w1_def w2_def)
  define w3 where "w3 = w2\<lparr>trace := trace w2 @ [Exists rf]\<rparr>"
  have nt: "\<not> clock w2 - clock w2 > ts * 1000" using assms(5) by (simp add: ts_def)
  have e3: "poll_tick False (clock w2) ts qf rf w2 = (Continue, w3)"
    using nt file_names_differ[of qid qid]
    by (simp add: poll_tick_unfold fs_defs present_def w2_def w3_def qf_def rf_def)
  have p3: "dir_exists w3" "failing w3 = []"
           "files w3 = [(questionFile_of (q_id qd), Stringify (AQuestion qd))]"
    using assms(2) by (simp_all add: w3_def w2_def w1_def qid qf_def)
  have c3: "clock w3 = clock w0" by (simp add: w3_def w2_def w1_def)
  have pl: "plain_id (q_id qd)" unfolding qid qid_def by (rule generateQuestionId_plain)
  from responder_scans_one_question[OF p3 assms(3,4) pl, of n rest] obtain t4 where
    e4: "responder_scans (replicate n [] @ ls @ [] # rest) w3 =
     w3\<lparr>files := [(qf, Stringify (AQuestion qd)), (rf, Stringify (AResponse rr))], trace := t4\<rparr>"
    by (auto simp add: qid qf_def rf_def rr_def c3)
  define w4 where "w4 = w3\<lparr>files := [(qf, Stringify (AQuestion qd)), (rf, Stringify (AResponse rr))]\<rparr>"
  have i4: "interfere (responder_scans (replicate n [] @ ls @ [] # rest)) w3 = w4"
    by (simp add: interfere_def e4 w4_def)
  have c4: "clock w4 = clock w2" "failing w4 = []" "dir_exists w4"
    using assms(2) by (simp_all add: w4_def w3_def w2_def w1_def)
  have e5: "fst (poll_tick False (clock w2) ts qf rf w4) =
              Return (if toLowerCase (trim (join ls)) = ''cancel'' then user_cancelled_outcome
                      else answered_outcome (trim (join ls)))"
    using poll_tick_reply[where rf = rf and w = w4 and st = "clock w2" and ts = ts and qf = qf
            and v = "AResponse rr"]
          c4 nt file_names_differ[of qid qid]
    by (simp add: present_def w4_def qf_def rf_def obj_responded_def obj_response_def rr_def)
  obtain r5 w5 where r5: "poll_tick False (clock w2) ts qf rf w4 = (r5, w5)"
    by (cases "poll_tick False (clock w2) ts qf rf w4")
  with e5 have r5': "r5 = Return (if toLowerCase (trim (join ls)) = ''cancel''
                                  then user_cancelled_outcome
                                  else answered_outcome (trim (join ls)))" by simp
  have "poll (clock w2) ts qf rf
          ((False, responder_scans (replicate n [] @ ls @ [] # rest)) # (False, env) # sched) w2
        = (r5, w5)"
    by (simp add: e3 i4 r5 r5')
  moreover have "clock w1 = clock w0" by (simp add: w1_def)
  ultimately show ?thesis
    using e1 e2 r5'
    by (simp add: execute_unfold Let_def w1_def[symmetric] ts_def[symmetric] qid_def[symmetric]
          qd_def[symmetric] qf_def[symmetric] rf_def[symmetric] del: poll_Nil poll_Cons)
qed

lemma trim_example: "trim (join ['' Use option B'', ''or C '']) = ''Use option B'' @ [CHR 0x0A] @ ''or C''"
  by (simp add: trim_def isWhiteSpace_def)

lemma cancel_example: "toLowerCase (trim (join ['' CaNcEl ''])) = ''cancel''"
  by code_simp

subsection \<open>What a run of the Responder does to the mailbox\<close>

lemma new_events_append: "trace w' = trace w @ evs \<Longrightarrow> new_events w w' = evs"
  by (simp add: new_events_def)

lemma prompt_result:
  "prompt q acc k input w = (p, rest, w') \<Longrightarrow>
     (p = Pending \<and> rest = [] \<and> w' = w)
   \<or> (\<exists>r a. w' = snd (writeResponse (obj_id q) r a w)
            \<and> (case fst (writeResponse (obj_id q) r a w) of
                  Inl e \<Rightarrow> p = Uncaught e | Inr u \<Rightarrow> p = Resolved))"
proof (induction q acc k input w rule: prompt.induct)
  case (1 q lines emptyLineCount w)
  then show ?case by simp
next
  case (2 q lines emptyLineCount line input w)
  show ?case
  proof (cases "line = []")
    case True
    show ?thesis
    proof (cases "lines = []")
      case True
      with \<open>line = []\<close> 2 show ?thesis by simp
    next
      case False
      define r where "r = (if toLowerCase (trim (join lines)) = ''cancel'' then [] else trim (join lines))"
      define a where "a = (toLowerCase (trim (join lines)) \<noteq> ''cancel'')"
      have e: "(if toLowerCase (trim (join lines)) = ''cancel''
                  then writeResponse (obj_id q) [] False w
                  else writeResponse (obj_id q) (trim (join lines)) True w)
               = writeResponse (obj_id q) r a w"
        by (simp add: r_def a_def)
      obtain x w1 where x: "writeResponse (obj_id q) r a w = (x, w1)"
        by (cases "writeResponse (obj_id q) r a w")
      from "2.prems" \<open>line = []\<close> False e x
      have "w' = snd (writeResponse (obj_id q) r a w)
            \<and> (case fst (writeResponse (obj_id q) r a w) of
                  Inl e \<Rightarrow> p = Uncaught e | Inr u \<Rightarrow> p = Resolved)"
        by (cases x) auto
      then show ?thesis by blast
    qed
  next
    case False
    with 2 show ?thesis by simp
  qed
qed


lemma responseFile_is_response: "startsWith (responseFile_of i) ''response_'' \<and> endsWith (responseFile_of i) ''.json''"
  by (simp add: startsWith_def endsWith_def responseFile_of_def)

lemma ore_refl: "extends_by P w w"
  by (simp add: extends_by_def)

lemma scan_is_responder: "scan_effect e \<Longrightarrow> responder_effect e"
  by (cases e) (simp_all add: scan_effect_def responder_effect_def)

lemma ore_weaken: "extends_by scan_effect w w' \<Longrightarrow> extends_by responder_effect w w'"
  by (auto simp add: extends_by_def list_all_iff scan_is_responder)

lemma ore_trans:
  "extends_by P w w1 \<Longrightarrow> extends_by P w1 w2 \<Longrightarrow> extends_by P w w2"
  by (auto simp add: extends_by_def)

lemma ore_interfere: "extends_by P w w1 \<Longrightarrow> extends_by P w (interfere env w1)"
  by (simp add: extends_by_def interfere_def)

lemma kept_refl: "mailbox_kept w w"
  by (simp add: mailbox_kept_def)

lemma kept_trans: "mailbox_kept w w1 \<Longrightarrow> mailbox_kept w1 w2 \<Longrightarrow> mailbox_kept w w2"
  by (simp add: mailbox_kept_def)

lemma ensureIpcDir_step:
  "extends_by scan_effect w (snd (ensureIpcDir w)) \<and> mailbox_kept w (snd (ensureIpcDir w))"
  by (auto simp add: fs_defs extends_by_def mailbox_kept_def scan_effect_def
        split: bool.splits)

lemma readdirSync_step:
  "extends_by scan_effect w (snd (readdirSync w)) \<and> mailbox_kept w (snd (readdirSync w))"
  by (auto simp add: fs_defs extends_by_def mailbox_kept_def scan_effect_def)

lemma readJson_step:
  "extends_by scan_effect w (snd (readJson f w)) \<and> mailbox_kept w (snd (readJson f w))"
  by (auto simp add: fs_defs extends_by_def mailbox_kept_def scan_effect_def
        split: option.splits)

lemma read_questions_step:
  "extends_by scan_effect w (snd (read_questions fs qs w))
   \<and> mailbox_kept w (snd (read_questions fs qs w))"
proof (induction fs arbitrary: qs w)
  case Nil
  show ?case by (simp add: ore_refl kept_refl)
next
  case (Cons f fs)
  obtain r w1 where r: "readJson f w = (r, w1)" by (cases "readJson f w")
  with readJson_step[where w = w and f = f] have s1: "extends_by scan_effect w w1" "mailbox_kept w w1" by simp_all
  show ?case
  proof (cases r)
    case (Inl e)
    with r Cons.IH[where qs = qs and w = w1] s1 show ?thesis
      by (auto intro: ore_trans kept_trans)
  next
    case (Inr v)
    with r Cons.IH[where qs = "qs @ [v]" and w = w1] s1 show ?thesis
      by (auto intro: ore_trans kept_trans)
  qed
qed

lemma getPendingQuestions_step:
  "extends_by scan_effect w (snd (getPendingQuestions w))
   \<and> mailbox_kept w (snd (getPendingQuestions w))"
proof -
  obtain r1 w1 where r1: "ensureIpcDir w = (r1, w1)" by (cases "ensureIpcDir w")
  with ensureIpcDir_step[of w] have s1: "extends_by scan_effect w w1" "mailbox_kept w w1" by simp_all
  obtain r2 w2 where r2: "readdirSync w1 = (r2, w2)" by (cases "readdirSync w1")
  with readdirSync_step[of w1] s1 have s2: "extends_by scan_effect w w2" "mailbox_kept w w2"
    by (auto intro: ore_trans kept_trans)
  show ?thesis
  proof (cases r1)
    case (Inl e)
    with r1 s1 show ?thesis by (simp add: getPendingQuestions_def)
  next
    case (Inr u)
    show ?thesis
    proof (cases r2)
      case (Inl e)
      with r1 r2 \<open>r1 = Inr u\<close> s2 show ?thesis by (simp add: getPendingQuestions_def)
    next
      case (Inr names)
      define fs where "fs = sort (filter (\<lambda>f. startsWith f ''question_'' \<and> endsWith f ''.json'') names)"
      from read_questions_step[where w = w2 and fs = fs and qs = "[]"] s2
      have "extends_by scan_effect w (snd (read_questions fs [] w2))"
           "mailbox_kept w (snd (read_questions fs [] w2))"
        by (auto intro: ore_trans kept_trans)
      with r1 r2 \<open>r1 = Inr u\<close> Inr show ?thesis
        by (auto simp add: getPendingQuestions_def fs_def split: prod.splits)
    qed
  qed
qed

lemma removed_refl: "nothing_removed w w"
  by (simp add: nothing_removed_def)

lemma removed_trans: "nothing_removed w w1 \<Longrightarrow> nothing_removed w1 w2 \<Longrightarrow> nothing_removed w w2"
  by (simp add: nothing_removed_def)

lemma kept_removed: "mailbox_kept w w' \<Longrightarrow> nothing_removed w w'"
  by (simp add: mailbox_kept_def nothing_removed_def)

lemma writeResponse_step:
  "extends_by responder_effect w (snd (writeResponse i r a w))
   \<and> nothing_removed w (snd (writeResponse i r a w))
   \<and> (plain_id i \<longrightarrow> mailbox_kept w (snd (writeResponse i r a w)))"
proof (intro conjI impI)
  show "extends_by responder_effect w (snd (writeResponse i r a w))"
    using responseFile_is_response[of i] writeResponse_trace[of i r a w]
    by (simp add: extends_by_def responder_effect_def)
  show "nothing_removed w (snd (writeResponse i r a w))"
    by (auto simp add: writeResponse_def writeFileSync_joined_def Let_def log_def
          nothing_removed_def update_conv')
  assume "plain_id i"
  then show "mailbox_kept w (snd (writeResponse i r a w))"
    using responseFile_is_response[of i]
    by (auto simp add: writeResponse_entry fs_defs mailbox_kept_def update_conv')
qed

lemma printQuestion_step:
  "extends_by responder_effect w (snd (printQuestion q w)) \<and> mailbox_kept w (snd (printQuestion q w))"
  by (auto simp add: printQuestion_def log_def extends_by_def mailbox_kept_def
        responder_effect_def split: jsobj.splits)

lemma promptUser_step:
  "extends_by responder_effect w (snd (snd (promptUser q input w)))
   \<and> nothing_removed w (snd (snd (promptUser q input w)))
   \<and> (plain_id (obj_id q) \<longrightarrow> mailbox_kept w (snd (snd (promptUser q input w))))"
proof -
  obtain p rest w' where p: "promptUser q input w = (p, rest, w')" by (cases "promptUser q input w")
  then have "prompt q [] 0 input w = (p, rest, w')" by (simp add: promptUser_def)
  from prompt_result[OF this] p writeResponse_step show ?thesis
    by (auto simp add: ore_refl kept_refl removed_refl)
qed

lemma for_questions_step:
  "extends_by responder_effect w (snd (snd (for_questions qs s w)))
   \<and> nothing_removed w (snd (snd (for_questions qs s w)))
   \<and> ((\<forall>v \<in> set (records qs). plain_id (obj_id v)) \<longrightarrow>
        mailbox_kept w (snd (snd (for_questions qs s w))))"
proof (induction qs arbitrary: s w)
  case Nil
  show ?case by (simp add: ore_refl kept_refl removed_refl)
next
  case (Cons v qs)
  show ?case
  proof (cases v)
    case Null
    then show ?thesis by (simp add: ore_refl kept_refl removed_refl)
  next
    case (Object q)
    show ?thesis
    proof (cases "obj_id q \<in> processedQuestions s")
      case True
      with Object Cons.IH[where w = w and s = s] show ?thesis by simp
    next
      case False
      define s1 where "s1 = s\<lparr>processedQuestions := insert (obj_id q) (processedQuestions s)\<rparr>"
      obtain r1 w1 where r1: "printQuestion q w = (r1, w1)" by (cases "printQuestion q w")
      with printQuestion_step[where w = w and q = q]
      have s1: "extends_by responder_effect w w1" "mailbox_kept w w1" by simp_all
      note n1 = kept_removed[OF s1(2)]
      show ?thesis
      proof (cases r1)
        case (Inl e)
        with Object False r1 s1 n1 show ?thesis by (simp add: Let_def)
      next
        case (Inr u)
        obtain p rest w2 where p: "promptUser q (stdin s1) w1 = (p, rest, w2)"
          by (cases "promptUser q (stdin s1) w1")
        with promptUser_step[where w = w1 and q = q and input = "stdin s1"] s1 n1
        have s2: "extends_by responder_effect w w2" "nothing_removed w w2"
                 "plain_id (obj_id q) \<longrightarrow> mailbox_kept w w2"
          by (auto intro: ore_trans kept_trans removed_trans)
        show ?thesis
        proof (cases p)
          case Resolved
          from Cons.IH[where w = w2 and s = "s1\<lparr>stdin := rest\<rparr>"] s2
          have "extends_by responder_effect w (snd (snd (for_questions qs (s1\<lparr>stdin := rest\<rparr>) w2)))"
               "nothing_removed w (snd (snd (for_questions qs (s1\<lparr>stdin := rest\<rparr>) w2)))"
               "(\<forall>v \<in> set (records (Object q # qs)). plain_id (obj_id v)) \<longrightarrow>
                  mailbox_kept w (snd (snd (for_questions qs (s1\<lparr>stdin := rest\<rparr>) w2)))"
            by (auto intro: ore_trans kept_trans removed_trans)
          with Object False r1 Inr p Resolved show ?thesis
            by (simp add: Let_def s1_def[symmetric])
        next
          case Pending
          with Object False r1 Inr p s2 show ?thesis
            by (simp add: Let_def s1_def[symmetric])
        next
          case (Uncaught e)
          with Object False r1 Inr p s2 show ?thesis
            by (simp add: Let_def s1_def[symmetric])
        qed
      qed
    qed
  qed
qed

lemma main_loop_effects:
  "extends_by responder_effect w (snd (snd (main_loop sched s w)))"
proof (induction sched arbitrary: s w)
  case Nil
  show ?case by (simp add: ore_refl)
next
  case (Cons env sched)
  obtain r1 w1 where r1: "getPendingQuestions w = (r1, w1)" by (cases "getPendingQuestions w")
  with getPendingQuestions_step[of w] have s1: "extends_by responder_effect w w1"
    by (simp add: ore_weaken)
  show ?case
  proof (cases r1)
    case (Inl e)
    with r1 s1 show ?thesis by simp
  next
    case (Inr qs)
    obtain st s2 w2 where f: "for_questions qs s w1 = (st, s2, w2)"
      by (cases "for_questions qs s w1")
    with for_questions_step[where w = w1 and qs = qs and s = s] s1 have s2: "extends_by responder_effect w w2"
      by (auto intro: ore_trans)
    show ?thesis
    proof (cases st)
      case Looping
      from Cons.IH[where w = "interfere env w2" and s = s2] ore_interfere[OF s2, of env]
      have "extends_by responder_effect w (snd (snd (main_loop sched s2 (interfere env w2))))"
        by (rule ore_trans[rotated])
      with r1 Inr f Looping show ?thesis by simp
    next
      case Blocked
      with r1 Inr f s2 show ?thesis by simp
    next
      case (Exited e)
      with r1 Inr f s2 show ?thesis by simp
    next
      case (Crashed e)
      with r1 Inr f s2 show ?thesis by simp
    qed
  qed
qed

lemma scan_example:
  "main_loop [\<lambda>w. w] \<lparr>processedQuestions = {}, stdin = [''Use option B'', '''', ''next'']\<rparr> w_asked =
     (Looping, \<lparr>processedQuestions = {''q1''}, stdin = [''next'']\<rparr>,
      w_asked\<lparr>files := [(''question_q1.json'', Stringify (AQuestion ex_question)),
                         (''response_q1.json'',
                          Stringify (AResponse \<lparr>r_id = ''q1'', response = ''Use option B'',
                                responded = True, r_timestamp = 1500\<rparr>))],
              trace := [ExistsDir, Readdir, ReadFile ''question_q1.json'', Shown ''q1'',
                        WriteFile ''response_q1.json'']\<rparr>)"
  by code_simp

subsection \<open>What a scan yields\<close>

lemma parsed_file_log: "parsed_file (log e w) = parsed_file w"
  by (simp add: parsed_file_def log_def fun_eq_iff)

lemma readJson_cases:
  assumes "dir_exists w"
  shows "(parsed_file w f = None \<and> (\<exists>e. readJson f w = (Inl e, log (ReadFile f) w)))
       \<or> (\<exists>v. parsed_file w f = Some v \<and> readJson f w = (Inr v, log (ReadFile f) w))"
  using assms
  by (auto simp add: parsed_file_def readJson_def readFileSync_def JSON_parse_def
        split: option.splits filetext.splits)

lemma read_questions_map_filter:
  "dir_exists w \<Longrightarrow> fst (read_questions fs qs w) = qs @ List.map_filter (parsed_file w) fs"
proof (induction fs arbitrary: qs w)
  case Nil
  show ?case by (simp add: List.map_filter_simps)
next
  case (Cons f fs)
  have d: "dir_exists (log (ReadFile f) w)" using Cons.prems by (simp add: log_def)
  from readJson_cases[OF Cons.prems, of f] show ?case
  proof
    assume "parsed_file w f = None \<and> (\<exists>e. readJson f w = (Inl e, log (ReadFile f) w))"
    then show ?thesis
      using Cons.IH[OF d, of qs] by (auto simp add: List.map_filter_simps parsed_file_log)
  next
    assume "\<exists>v. parsed_file w f = Some v \<and> readJson f w = (Inr v, log (ReadFile f) w)"
    then show ?thesis
      using Cons.IH[OF d] by (auto simp add: List.map_filter_simps parsed_file_log)
  qed
qed

lemma getPendingQuestions_sorted:
  assumes "Readdir \<notin> set (failing w)" and "dir_exists w \<or> Mkdir \<notin> set (failing w)"
  shows "fst (getPendingQuestions w) =
           Inr (List.map_filter (parsed_file w)
                  (sort (filter (\<lambda>f. startsWith f ''question_'' \<and> endsWith f ''.json'')
                           (map fst (files w)))))"
proof -
  define t1 where "t1 = trace w @ (if dir_exists w then [ExistsDir] else [ExistsDir, Mkdir])"
  define w1 where "w1 = w\<lparr>dir_exists := True, trace := t1\<rparr>"
  have e1: "ensureIpcDir w = (Inr (), w1)"
    using assms(2) by (cases "dir_exists w") (auto simp add: fs_defs w1_def t1_def intro!: world.equality)
  define w2 where "w2 = log Readdir w1"
  have e2: "readdirSync w1 = (Inr (map fst (files w)), w2)"
    using assms(1) by (simp add: readdirSync_def w1_def w2_def)
  have d2: "dir_exists w2" by (simp add: w2_def w1_def log_def)
  have p2: "parsed_file w2 = parsed_file w"
    by (simp add: parsed_file_def fun_eq_iff w2_def w1_def log_def)
  define fs where "fs = sort (filter (\<lambda>f. startsWith f ''question_'' \<and> endsWith f ''.json'')
                           (map fst (files w)))"
  obtain qs w3 where rq: "read_questions fs [] w2 = (qs, w3)"
    by (cases "read_questions fs [] w2")
  with read_questions_map_filter[OF d2, of fs "[]"] p2
  have "qs = List.map_filter (parsed_file w) fs" by simp
  moreover have "getPendingQuestions w = (Inr qs, w3)"
    using e1 e2 rq by (simp add: getPendingQuestions_def fs_def)
  ultimately show ?thesis by (simp add: fs_def)
qed

lemma getPendingQuestions_fails:
  assumes "Readdir \<in> set (failing w) \<or> (\<not> dir_exists w \<and> Mkdir \<in> set (failing w))"
  shows "\<exists>w'. getPendingQuestions w = (Inl EIO, w') \<and> files w' = files w
              \<and> extends_by scan_effect w w'"
proof -
  obtain r w' where r: "getPendingQuestions w = (r, w')" by (cases "getPendingQuestions w")
  with getPendingQuestions_step[of w] have s: "extends_by scan_effect w w'" by simp
  from r assms have "r = Inl EIO \<and> files w' = files w"
    by (auto simp add: getPendingQuestions_def fs_defs split: if_splits bool.splits prod.splits)
  with r s show ?thesis by simp
qed

lemma getPendingQuestions_parsed:
  assumes "getPendingQuestions w = (Inr qs, w1)" "v \<in> set qs"
  shows "\<exists>g. parsed_file w g = Some v"
proof (cases "Readdir \<in> set (failing w) \<or> (\<not> dir_exists w \<and> Mkdir \<in> set (failing w))")
  case True
  from getPendingQuestions_fails[OF True] assms(1) show ?thesis by auto
next
  case False
  then have "fst (getPendingQuestions w) =
           Inr (List.map_filter (parsed_file w)
                  (sort (filter (\<lambda>f. startsWith f ''question_'' \<and> endsWith f ''.json'')
                           (map fst (files w)))))"
    using getPendingQuestions_sorted[of w] by blast
  with assms show ?thesis by (auto simp add: List.map_filter_def)
qed

lemma records_subset: "v \<in> set (records qs) \<Longrightarrow> Object v \<in> set qs"
  by (induction qs rule: records.induct) auto

lemma main_loop_single_scan_kept:
  "nothing_removed w (snd (snd (main_loop [\<lambda>w. w] s w)))
   \<and> ((\<forall>g v. parsed_file w g = Some (Object v) \<longrightarrow> plain_id (obj_id v)) \<longrightarrow>
        mailbox_kept w (snd (snd (main_loop [\<lambda>w. w] s w))))"
proof -
  obtain r1 w1 where r1: "getPendingQuestions w = (r1, w1)" by (cases "getPendingQuestions w")
  with getPendingQuestions_step[of w] have s1: "mailbox_kept w w1" by simp
  note n1 = kept_removed[OF s1]
  show ?thesis
  proof (cases r1)
    case (Inl e)
    with r1 s1 n1 show ?thesis by simp
  next
    case (Inr qs)
    obtain st s2 w2 where f: "for_questions qs s w1 = (st, s2, w2)"
      by (cases "for_questions qs s w1")
    have pl: "\<forall>v \<in> set (records qs). plain_id (obj_id v)"
      if "\<forall>g v. parsed_file w g = Some (Object v) \<longrightarrow> plain_id (obj_id v)"
      using that getPendingQuestions_parsed[OF r1[unfolded Inr]] records_subset by blast
    from f for_questions_step[where w = w1 and qs = qs and s = s] s1 n1
    have s2: "nothing_removed w w2"
             "(\<forall>v \<in> set (records qs). plain_id (obj_id v)) \<longrightarrow> mailbox_kept w w2"
      by (auto intro: kept_trans removed_trans)
    with pl have "nothing_removed w w2"
       "(\<forall>g v. parsed_file w g = Some (Object v) \<longrightarrow> plain_id (obj_id v)) \<longrightarrow> mailbox_kept w w2"
      by blast+
    with r1 Inr f show ?thesis
      by (cases st) (simp_all add: interfere_id)
  qed
qed

lemma main_loop_single_scan_present:
  "present f w \<Longrightarrow> present f (snd (snd (main_loop [\<lambda>w. w] s w)))"
  using main_loop_single_scan_kept[of w s]
  by (simp add: nothing_removed_def present_def del: main_loop.simps)

lemma sort_example:
  "sort [''question_q2.json'', ''question_q0.json'', ''question_q1.json''] =
     [''question_q0.json'', ''question_q1.json'', ''question_q2.json'']"
  by code_simp

subsection \<open>Presentations\<close>

lemma shown_ids_append: "shown_ids (xs @ ys) = shown_ids xs @ shown_ids ys"
  by (induction xs rule: shown_ids.induct) simp_all

lemma answered_all_append: "answered_all xs \<Longrightarrow> answered_all (xs @ ys) = answered_all ys"
  by (induction xs rule: answered_all.induct) simp_all

lemma one_at_a_time_append: "answered_all xs \<Longrightarrow> one_at_a_time (xs @ ys) = one_at_a_time ys"
  by (induction xs rule: answered_all.induct) simp_all

lemma answered_all_one_at_a_time: "answered_all xs \<Longrightarrow> one_at_a_time xs"
  by (induction xs rule: answered_all.induct) simp_all

lemma scan_effects_show_nothing:
  "list_all scan_effect xs \<Longrightarrow> shown_ids xs = [] \<and> answered_all xs"
proof (induction xs)
  case Nil
  show ?case by simp
next
  case (Cons e xs)
  then show ?case by (cases e) (simp_all add: scan_effect_def)
qed

lemma unseen_distinct: "distinct (unseen P ids) \<and> set (unseen P ids) \<inter> P = {}"
proof (induction ids arbitrary: P)
  case Nil
  show ?case by simp
next
  case (Cons i ids)
  from Cons.IH[of P] Cons.IH[of "insert i P"] show ?case by auto
qed

lemma take_unseen_distinct:
  "distinct (take k (unseen P ids)) \<and> set (take k (unseen P ids)) \<inter> P = {}"
proof -
  have "set (take k (unseen P ids)) \<subseteq> set (unseen P ids)" by (rule set_take_subset)
  with unseen_distinct[of P ids] show ?thesis by (auto simp add: distinct_take)
qed

lemma promptUser_result:
  assumes "promptUser q input w = (p, rest, w')"
  shows "(p = Pending \<and> w' = w)
       \<or> ((p = Resolved \<or> (\<exists>e. p = Uncaught e))
           \<and> trace w' = trace w @ [WriteFile (responseFile_of (obj_id q))])"
proof -
  from assms have "prompt q [] 0 input w = (p, rest, w')" by (simp add: promptUser_def)
  from prompt_result[OF this] show ?thesis
  proof
    assume "p = Pending \<and> rest = [] \<and> w' = w"
    then show ?thesis by simp
  next
    assume "\<exists>r a. w' = snd (writeResponse (obj_id q) r a w)
            \<and> (case fst (writeResponse (obj_id q) r a w) of
                  Inl e \<Rightarrow> p = Uncaught e | Inr u \<Rightarrow> p = Resolved)"
    then obtain r a where
      h: "w' = snd (writeResponse (obj_id q) r a w)"
         "case fst (writeResponse (obj_id q) r a w) of Inl e \<Rightarrow> p = Uncaught e | Inr u \<Rightarrow> p = Resolved"
      by blast
    from h(1) have "trace w' = trace w @ [WriteFile (responseFile_of (obj_id q))]"
      by (simp add: writeResponse_trace)
    moreover from h(2) have "p = Resolved \<or> (\<exists>e. p = Uncaught e)"
      by (cases "fst (writeResponse (obj_id q) r a w)") auto
    ultimately show ?thesis by simp
  qed
qed

lemma for_questions_shown:
  "for_questions qs s w = (st, s', w') \<Longrightarrow>
     \<exists>evs k. trace w' = trace w @ evs
       \<and> one_at_a_time evs
       \<and> shown_ids evs = take k (unseen (processedQuestions s) (map obj_id (records qs)))
       \<and> (st = Looping \<longrightarrow>
            answered_all evs
            \<and> shown_ids evs = unseen (processedQuestions s) (map obj_id (records qs)))
       \<and> processedQuestions s \<union> set (shown_ids evs) \<subseteq> processedQuestions s'"
proof (induction qs arbitrary: s w)
  case Nil
  then have "trace w' = trace w @ [] \<and> one_at_a_time []
       \<and> shown_ids [] = take 0 (unseen (processedQuestions s) (map obj_id (records [])))
       \<and> (st = Looping \<longrightarrow> answered_all [] \<and> shown_ids [] = unseen (processedQuestions s) (map obj_id (records [])))
       \<and> processedQuestions s \<union> set (shown_ids []) \<subseteq> processedQuestions s'"
    by simp
  then show ?case by blast
next
  case (Cons v qs)
  let ?P = "processedQuestions s"
  show ?case
  proof (cases v)
    case Null
    with Cons.prems have "trace w' = trace w @ [] \<and> one_at_a_time []
       \<and> shown_ids [] = take 0 (unseen ?P (map obj_id (records (v # qs))))
       \<and> (st = Looping \<longrightarrow> answered_all []
             \<and> shown_ids [] = unseen ?P (map obj_id (records (v # qs))))
       \<and> ?P \<union> set (shown_ids []) \<subseteq> processedQuestions s'"
      by auto
    then show ?thesis by blast
  next
  case (Object q)
  note Cons_prems = Cons.prems[unfolded Object]
  show ?thesis
  proof (cases "obj_id q \<in> ?P")
    case True
    with Cons_prems have "for_questions qs s w = (st, s', w')" by simp
    from Cons.IH[OF this] True Object show ?thesis by simp
  next
    case False
    define s1 where "s1 = s\<lparr>processedQuestions := insert (obj_id q) ?P\<rparr>"
    have P1: "processedQuestions s1 = insert (obj_id q) ?P" by (simp add: s1_def)
    have U: "unseen ?P (map obj_id (records (v # qs))) = obj_id q # unseen (insert (obj_id q) ?P) (map obj_id (records qs))"
      using False Object by simp
    show ?thesis
    proof (cases q)
      case (AResponse r)
      with Cons_prems False have r: "st = Exited TypeError" "s' = s1" "w' = w"
        by (simp_all add: printQuestion_def Let_def s1_def)
      then have "trace w' = trace w @ [] \<and> one_at_a_time []
         \<and> shown_ids [] = take 0 (unseen ?P (map obj_id (records (v # qs))))
         \<and> (st = Looping \<longrightarrow> answered_all [] \<and> shown_ids [] = unseen ?P (map obj_id (records (v # qs))))
         \<and> ?P \<union> set (shown_ids []) \<subseteq> processedQuestions s'"
        by (auto simp add: P1)
      then show ?thesis by blast
    next
      case (AQuestion x)
      define i where "i = obj_id q"
      define w1 where "w1 = log (Shown i) w"
      have pq: "printQuestion q w = (Inr (), w1)"
        by (simp add: printQuestion_def AQuestion w1_def i_def obj_id_def)
      obtain p rest w2 where p: "promptUser q (stdin s1) w1 = (p, rest, w2)"
        by (cases "promptUser q (stdin s1) w1")
      have t1: "trace w1 = trace w @ [Shown i]" by (simp add: w1_def log_def)
      from promptUser_result[OF p] show ?thesis
      proof
        assume a: "p = Pending \<and> w2 = w1"
        with Cons_prems False pq p have r: "st = Blocked" "s' = s1\<lparr>stdin := rest\<rparr>" "w' = w1"
          by (simp_all add: Let_def s1_def[symmetric])
        have "trace w' = trace w @ [Shown i] \<and> one_at_a_time [Shown i]
           \<and> shown_ids [Shown i] = take 1 (unseen ?P (map obj_id (records (v # qs))))
           \<and> (st = Looping \<longrightarrow> answered_all [Shown i]
                 \<and> shown_ids [Shown i] = unseen ?P (map obj_id (records (v # qs))))
           \<and> ?P \<union> set (shown_ids [Shown i]) \<subseteq> processedQuestions s'"
          using r t1 U by (simp add: i_def P1)
        then show ?thesis by blast
      next
        assume a: "(p = Resolved \<or> (\<exists>e. p = Uncaught e))
           \<and> trace w2 = trace w1 @ [WriteFile (responseFile_of (obj_id q))]"
        then have t2: "trace w2 = trace w @ [Shown i, WriteFile (responseFile_of i)]"
          using t1 by (simp add: i_def)
        from a show ?thesis
        proof (elim conjE disjE exE)
          fix e
          assume "p = Uncaught e"
          with Cons_prems False pq p have r: "st = Crashed e" "s' = s1\<lparr>stdin := rest\<rparr>" "w' = w2"
            by (simp_all add: Let_def s1_def[symmetric])
          have "trace w' = trace w @ [Shown i, WriteFile (responseFile_of i)]
             \<and> one_at_a_time [Shown i, WriteFile (responseFile_of i)]
             \<and> shown_ids [Shown i, WriteFile (responseFile_of i)]
                 = take 1 (unseen ?P (map obj_id (records (v # qs))))
             \<and> (st = Looping \<longrightarrow> answered_all [Shown i, WriteFile (responseFile_of i)]
                   \<and> shown_ids [Shown i, WriteFile (responseFile_of i)]
                       = unseen ?P (map obj_id (records (v # qs))))
             \<and> ?P \<union> set (shown_ids [Shown i, WriteFile (responseFile_of i)])
                 \<subseteq> processedQuestions s'"
            using r t2 U by (simp add: i_def P1)
          then show ?thesis by blast
        next
          assume "p = Resolved"
          with Cons_prems False pq p
          have f: "for_questions qs (s1\<lparr>stdin := rest\<rparr>) w2 = (st, s', w')"
            by (simp add: Let_def s1_def[symmetric])
          define s2 where "s2 = s1\<lparr>stdin := rest\<rparr>"
          have P2: "processedQuestions s2 = insert (obj_id q) ?P" by (simp add: s2_def P1)
          from f have "for_questions qs s2 w2 = (st, s', w')" by (simp add: s2_def)
          from Cons.IH[OF this] obtain evs k where
            ih: "trace w' = trace w2 @ evs \<and> one_at_a_time evs
                \<and> shown_ids evs = take k (unseen (processedQuestions s2) (map obj_id (records qs)))
                \<and> (st = Looping \<longrightarrow> answered_all evs
                      \<and> shown_ids evs = unseen (processedQuestions s2) (map obj_id (records qs)))
                \<and> processedQuestions s2 \<union> set (shown_ids evs) \<subseteq> processedQuestions s'"
            by blast
          let ?evs = "[Shown i, WriteFile (responseFile_of i)] @ evs"
          let ?U = "unseen (insert (obj_id q) ?P) (map obj_id (records qs))"
          from ih have i1: "trace w' = trace w2 @ evs" and i2: "one_at_a_time evs"
            and i3: "shown_ids evs = take k ?U"
            and i4: "st = Looping \<longrightarrow> answered_all evs \<and> shown_ids evs = ?U"
            and i5: "insert (obj_id q) ?P \<union> set (shown_ids evs) \<subseteq> processedQuestions s'"
            unfolding P2 by blast+
          have c1: "trace w' = trace w @ ?evs" using i1 t2 by simp
          have c2: "one_at_a_time ?evs" using i2 by simp
          have c3: "shown_ids ?evs = take (Suc k) (unseen ?P (map obj_id (records (v # qs))))"
            unfolding U using i3 by (simp add: i_def)
          have c4: "st = Looping \<longrightarrow> answered_all ?evs
                   \<and> shown_ids ?evs = unseen ?P (map obj_id (records (v # qs)))"
            unfolding U using i4 by (simp add: i_def)
          have c5: "?P \<union> set (shown_ids ?evs) \<subseteq> processedQuestions s'"
            using i5 by (auto simp add: i_def)
          from c1 c2 c3 c4 c5 show ?thesis by blast
        qed
      qed
    qed
  qed
  qed
qed

lemma main_loop_shown:
  "main_loop sched s w = (st, s', w') \<Longrightarrow>
     \<exists>evs. trace w' = trace w @ evs
       \<and> one_at_a_time evs
       \<and> (st = Looping \<longrightarrow> answered_all evs)
       \<and> distinct (shown_ids evs)
       \<and> set (shown_ids evs) \<inter> processedQuestions s = {}
       \<and> processedQuestions s \<union> set (shown_ids evs) \<subseteq> processedQuestions s'"
proof (induction sched arbitrary: s w)
  case Nil
  then have "trace w' = trace w @ [] \<and> one_at_a_time [] \<and> (st = Looping \<longrightarrow> answered_all [])
       \<and> distinct (shown_ids []) \<and> set (shown_ids []) \<inter> processedQuestions s = {}
       \<and> processedQuestions s \<union> set (shown_ids []) \<subseteq> processedQuestions s'"
    by simp
  then show ?case by blast
next
  case (Cons env sched)
  let ?P = "processedQuestions s"
  obtain r1 w1 where r1: "getPendingQuestions w = (r1, w1)" by (cases "getPendingQuestions w")
  with getPendingQuestions_step[of w] obtain e1 where
    e1: "trace w1 = trace w @ e1" "list_all scan_effect e1"
    by (auto simp add: extends_by_def)
  from scan_effects_show_nothing[OF e1(2)] have n1: "shown_ids e1 = []" "answered_all e1"
    by simp_all
  show ?case
  proof (cases r1)
    case (Inl e)
    with Cons.prems r1 have r: "st = Exited e" "s' = s" "w' = w1" by simp_all
    have "trace w' = trace w @ e1 \<and> one_at_a_time e1 \<and> (st = Looping \<longrightarrow> answered_all e1)
       \<and> distinct (shown_ids e1) \<and> set (shown_ids e1) \<inter> ?P = {}
       \<and> ?P \<union> set (shown_ids e1) \<subseteq> processedQuestions s'"
      using r e1 n1 by (simp add: answered_all_one_at_a_time)
    then show ?thesis by blast
  next
    case (Inr qs)
    obtain st1 s2 w2 where f: "for_questions qs s w1 = (st1, s2, w2)"
      by (cases "for_questions qs s w1")
    from for_questions_shown[OF f] obtain e2 k where
      f1: "trace w2 = trace w1 @ e2" and f2: "one_at_a_time e2"
      and f3: "shown_ids e2 = take k (unseen ?P (map obj_id (records qs)))"
      and f4: "st1 = Looping \<longrightarrow> answered_all e2"
      and f5: "?P \<union> set (shown_ids e2) \<subseteq> processedQuestions s2"
      by blast
    from f3 take_unseen_distinct[of k ?P "map obj_id (records qs)"]
    have d2: "distinct (shown_ids e2)" "set (shown_ids e2) \<inter> ?P = {}" by simp_all
    have t2: "trace w2 = trace w @ (e1 @ e2)" using e1(1) f1 by simp
    have o2: "one_at_a_time (e1 @ e2)" using n1 f2 by (simp add: one_at_a_time_append)
    have s12: "shown_ids (e1 @ e2) = shown_ids e2" using n1 by (simp add: shown_ids_append)
    show ?thesis
    proof (cases "st1 = Looping")
      case False
      with Cons.prems r1 Inr f have r: "st = st1" "s' = s2" "w' = w2"
        by (cases st1; simp)+
      have "trace w' = trace w @ (e1 @ e2) \<and> one_at_a_time (e1 @ e2)
         \<and> (st = Looping \<longrightarrow> answered_all (e1 @ e2))
         \<and> distinct (shown_ids (e1 @ e2)) \<and> set (shown_ids (e1 @ e2)) \<inter> ?P = {}
         \<and> ?P \<union> set (shown_ids (e1 @ e2)) \<subseteq> processedQuestions s'"
        using r False t2 o2 d2 f5 unfolding s12 by simp
      then show ?thesis by blast
    next
      case True
      with Cons.prems r1 Inr f
      have m: "main_loop sched s2 (interfere env w2) = (st, s', w')" by simp
      from Cons.IH[OF m] obtain e3 where
        g1: "trace w' = trace (interfere env w2) @ e3" and g2: "one_at_a_time e3"
        and g3: "st = Looping \<longrightarrow> answered_all e3"
        and g4: "distinct (shown_ids e3)"
        and g5: "set (shown_ids e3) \<inter> processedQuestions s2 = {}"
        and g6: "processedQuestions s2 \<union> set (shown_ids e3) \<subseteq> processedQuestions s'"
        by blast
      have a12: "answered_all (e1 @ e2)" using n1 f4 True by (simp add: answered_all_append)
      let ?evs = "(e1 @ e2) @ e3"
      have c1: "trace w' = trace w @ ?evs" using g1 t2 by (simp add: interfere_def)
      have c2: "one_at_a_time ?evs" using a12 g2 by (simp only: one_at_a_time_append)
      have c3: "st = Looping \<longrightarrow> answered_all ?evs" using a12 g3 by (simp only: answered_all_append)
      have sh: "shown_ids ?evs = shown_ids e2 @ shown_ids e3"
        using n1 by (simp add: shown_ids_append)
      have c4: "distinct (shown_ids ?evs)" unfolding sh using d2 g4 g5 f5 by auto
      have c5: "set (shown_ids ?evs) \<inter> ?P = {}" unfolding sh using d2 g5 f5 by auto
      have c6: "?P \<union> set (shown_ids ?evs) \<subseteq> processedQuestions s'"
        unfolding sh using f5 g6 by auto
      from c1 c2 c3 c4 c5 c6 show ?thesis by blast
    qed
  qed
qed

lemma take_own_length: "xs = take k ys \<Longrightarrow> xs = take (length xs) ys"
  by (auto simp add: min_def)

lemma main_loop_unroll:
  "main_loop (env # sched) s w =
     (case main_loop [env] s w of
        (Looping, s2, w2) \<Rightarrow> main_loop sched s2 w2
      | (Blocked, s2, w2) \<Rightarrow> (Blocked, s2, w2)
      | (Exited e, s2, w2) \<Rightarrow> (Exited e, s2, w2)
      | (Crashed e, s2, w2) \<Rightarrow> (Crashed e, s2, w2))"
  by (simp split: prod.splits sum.splits status.splits)

lemma main_loop_scan_order:
  assumes "Readdir \<notin> set (failing w)" and "dir_exists w \<or> Mkdir \<notin> set (failing w)"
  shows "\<exists>k. shown_ids (new_events w (snd (snd (main_loop [env] s w))))
             = take k (unseen (processedQuestions s)
                  (map obj_id (records (List.map_filter (parsed_file w)
                     (sort (filter (\<lambda>f. startsWith f ''question_'' \<and> endsWith f ''.json'')
                              (map fst (files w))))))))
           \<and> (fst (main_loop [env] s w) = Looping \<longrightarrow>
                shown_ids (new_events w (snd (snd (main_loop [env] s w))))
                  = unseen (processedQuestions s)
                      (map obj_id (records (List.map_filter (parsed_file w)
                         (sort (filter (\<lambda>f. startsWith f ''question_'' \<and> endsWith f ''.json'')
                                  (map fst (files w))))))))"
proof -
  define qs where "qs = List.map_filter (parsed_file w)
                     (sort (filter (\<lambda>f. startsWith f ''question_'' \<and> endsWith f ''.json'')
                              (map fst (files w))))"
  obtain r1 w1 where r1: "getPendingQuestions w = (r1, w1)" by (cases "getPendingQuestions w")
  with getPendingQuestions_sorted[OF assms] have g: "getPendingQuestions w = (Inr qs, w1)"
    by (simp add: qs_def)
  from getPendingQuestions_step[of w] g obtain e1 where
    e1: "trace w1 = trace w @ e1" "list_all scan_effect e1"
    by (auto simp add: extends_by_def)
  from scan_effects_show_nothing[OF e1(2)] have n1: "shown_ids e1 = []" by simp
  obtain st1 s2 w2 where f: "for_questions qs s w1 = (st1, s2, w2)"
    by (cases "for_questions qs s w1")
  from for_questions_shown[OF f] obtain e2 k where
    f1: "trace w2 = trace w1 @ e2"
    and f3: "shown_ids e2 = take k (unseen (processedQuestions s) (map obj_id (records qs)))"
    and f4: "st1 = Looping \<longrightarrow>
               shown_ids e2 = unseen (processedQuestions s) (map obj_id (records qs))"
    by blast
  have m: "fst (main_loop [env] s w) = st1 \<and> trace (snd (snd (main_loop [env] s w))) = trace w2"
    using g f by (cases st1) (simp_all add: interfere_def)
  then have "new_events w (snd (snd (main_loop [env] s w))) = e1 @ e2"
    using e1(1) f1 by (simp add: new_events_def)
  then have sh: "shown_ids (new_events w (snd (snd (main_loop [env] s w)))) = shown_ids e2"
    using n1 by (simp add: shown_ids_append)
  have "shown_ids (new_events w (snd (snd (main_loop [env] s w))))
          = take k (unseen (processedQuestions s) (map obj_id (records qs)))"
    unfolding sh by (rule f3)
  moreover have "fst (main_loop [env] s w) = Looping \<longrightarrow>
                shown_ids (new_events w (snd (snd (main_loop [env] s w))))
                  = unseen (processedQuestions s) (map obj_id (records qs))"
    unfolding sh using m f4 by simp
  ultimately show ?thesis unfolding qs_def by blast
qed

lemma for_questions_answer:
  assumes "obj_id q \<notin> processedQuestions s" "plain_id (q_id x)" "q = AQuestion x"
      and "stdin s = replicate n [] @ ls @ [] # rest" "ls \<noteq> []" "[] \<notin> set ls"
      and "dir_exists w" "WriteFile (responseFile_of (q_id x)) \<notin> set (failing w)"
  shows "for_questions (Object q # qs) s w =
     for_questions qs (s\<lparr>processedQuestions := insert (q_id x) (processedQuestions s),
                         stdin := rest\<rparr>)
       (w\<lparr>files := AList.update (responseFile_of (q_id x))
                     (Stringify (AResponse
                        \<lparr>r_id = q_id x,
                         response = (if toLowerCase (trim (join ls)) = ''cancel'' then []
                                     else trim (join ls)),
                         responded = (toLowerCase (trim (join ls)) \<noteq> ''cancel''),
                         r_timestamp = clock w\<rparr>))
                     (files w),
          trace := trace w @ [Shown (q_id x), WriteFile (responseFile_of (q_id x))]\<rparr>)"
proof -
  define r where "r = (if toLowerCase (trim (join ls)) = ''cancel'' then [] else trim (join ls))"
  define a where "a = (toLowerCase (trim (join ls)) \<noteq> ''cancel'')"
  define w1 where "w1 = log (Shown (q_id x)) w"
  define s1 where "s1 = s\<lparr>processedQuestions := insert (q_id x) (processedQuestions s)\<rparr>"
  have i: "obj_id q = q_id x" using assms(3) by (simp add: obj_id_def)
  have pq: "printQuestion q w = (Inr (), w1)"
    using assms(3) by (simp add: printQuestion_def w1_def)
  have d1: "dir_exists w1" "WriteFile (responseFile_of (q_id x)) \<notin> set (failing w1)"
           "clock w1 = clock w" "files w1 = files w" "trace w1 = trace w @ [Shown (q_id x)]"
    using assms(7,8) by (simp_all add: w1_def log_def)
  define w2 where "w2 = w1\<lparr>files := AList.update (responseFile_of (q_id x))
                   (Stringify (AResponse \<lparr>r_id = q_id x, response = r, responded = a,
                                            r_timestamp = clock w1\<rparr>)) (files w1),
                trace := trace w1 @ [WriteFile (responseFile_of (q_id x))]\<rparr>"
  have wr: "writeResponse (q_id x) r a w1 = (Inr (), w2)"
    using writeResponse_ok[OF d1(1,2) assms(2), of r a] by (simp add: w2_def)
  have st: "stdin s1 = replicate n [] @ ls @ [] # rest" using assms(4) by (simp add: s1_def)
  have p: "promptUser q (stdin s1) w1 = (Resolved, rest, w2)"
    unfolding st
    using promptUser_submit[OF assms(5,6), of q n rest w1] wr
    unfolding r_def a_def i
    by (cases "toLowerCase (trim (join ls)) = ''cancel''") simp_all
  have "for_questions (Object q # qs) s w = for_questions qs (s1\<lparr>stdin := rest\<rparr>) w2"
    using assms(1) pq p by (simp add: Let_def i s1_def[symmetric] del: for_questions.simps(1))
  moreover have "s1\<lparr>stdin := rest\<rparr> =
     s\<lparr>processedQuestions := insert (q_id x) (processedQuestions s), stdin := rest\<rparr>"
    by (simp add: s1_def)
  moreover have "w2 = w\<lparr>files := AList.update (responseFile_of (q_id x))
                     (Stringify (AResponse
                        \<lparr>r_id = q_id x, response = r, responded = a, r_timestamp = clock w\<rparr>))
                     (files w),
          trace := trace w @ [Shown (q_id x), WriteFile (responseFile_of (q_id x))]\<rparr>"
    by (simp add: w2_def w1_def log_def)
  ultimately show ?thesis unfolding r_def a_def by simp
qed

lemma one_scan_example:
  "main_loop [\<lambda>w. w]
     \<lparr>processedQuestions = {}, stdin = [''Use option B'', '''', ''blue'', '''', ''next'']\<rparr> w_two =
     (Looping, \<lparr>processedQuestions = {''q2'', ''q1''}, stdin = [''next'']\<rparr>,
      w_two\<lparr>files := [(''question_q2.json'', Stringify (AQuestion ex_question2)),
                       (''question_q1.json'', Stringify (AQuestion ex_question)),
                       (''response_q1.json'',
                        Stringify (AResponse \<lparr>r_id = ''q1'', response = ''Use option B'',
                              responded = True, r_timestamp = 1500\<rparr>)),
                       (''response_q2.json'',
                        Stringify (AResponse \<lparr>r_id = ''q2'', response = ''blue'',
                              responded = True, r_timestamp = 1500\<rparr>))],
            trace := [ExistsDir, Readdir, ReadFile ''question_q1.json'',
                      ReadFile ''question_q2.json'',
                      Shown ''q1'', WriteFile ''response_q1.json'',
                      Shown ''q2'', WriteFile ''response_q2.json'']\<rparr>)"
  by code_simp

lemma answer_example:
  "trim (join [''Use option B'']) = ''Use option B''"
  "toLowerCase (trim (join [''Use option B''])) \<noteq> ''cancel''"
  by code_simp+

subsection \<open>The call as a run of the loop\<close>

lemma ensureIpcDir_clock: "clock (snd (ensureIpcDir w)) = clock w"
  by (simp add: fs_defs split: bool.splits)

lemma writeFileSync_clock: "clock (snd (writeFileSync f t w)) = clock w"
  by (simp add: fs_defs)

lemma execute_raced_runs:
  "(\<exists>e w1. \<forall>sched. execute_raced a c rnd sched final w = (Throw e, w1))
   \<or> (\<exists>w2. clock w2 = clock w
          \<and> (\<forall>sched. execute_raced a c rnd sched final w =
                (case poll_raced (clock w)
                        (case arg_timeout a of None \<Rightarrow> DEFAULT_TIMEOUT_SEC | Some t \<Rightarrow> t)
                        (questionFile_of (generateQuestionId (clock w) rnd))
                        (responseFile_of (generateQuestionId (clock w) rnd)) sched w2 of
                   (Throw error, w3) \<Rightarrow>
                     cleanup_on_error final error
                       (questionFile_of (generateQuestionId (clock w) rnd))
                       (responseFile_of (generateQuestionId (clock w) rnd)) w3
                 | (Continue, w3) \<Rightarrow> (Continue, w3)
                 | (Return r, w3) \<Rightarrow> (Return r, w3))))"
proof -
  obtain r1 w1 where r1: "ensureIpcDir w = (r1, w1)" by (cases "ensureIpcDir w")
  with ensureIpcDir_clock[of w] have c1: "clock w1 = clock w" by simp
  show ?thesis
  proof (cases r1)
    case (Inl e)
    with r1 have "\<forall>sched. execute_raced a c rnd sched final w = (Throw e, w1)"
      by (simp add: execute_raced_def)
    then show ?thesis by blast
  next
    case (Inr u)
    define qd where "qd = \<lparr>q_id = generateQuestionId (clock w) rnd, question = arg_question a,
                  title = arg_title a, sessionID = ctx_sessionID c, messageID = ctx_messageID c,
                  q_timestamp = clock w\<rparr>"
    obtain r2 w2 where r2: "writeFileSync (questionFile_of (generateQuestionId (clock w) rnd))
                               (Stringify (AQuestion qd)) w1 = (r2, w2)"
      by (cases "writeFileSync (questionFile_of (generateQuestionId (clock w) rnd))
                               (Stringify (AQuestion qd)) w1")
    with writeFileSync_clock[of "questionFile_of (generateQuestionId (clock w) rnd)"
           "Stringify (AQuestion qd)" w1] c1
    have c2: "clock w2 = clock w" by simp
    show ?thesis
    proof (cases r2)
      case (Inl e)
      with r1 \<open>r1 = Inr u\<close> r2 c1
      have "\<forall>sched. execute_raced a c rnd sched final w = (Throw e, w2)"
        by (simp add: execute_raced_def Let_def qd_def)
      then show ?thesis by blast
    next
      case (Inr u')
      with r1 \<open>r1 = Inr u\<close> r2 c1 c2
      have "\<forall>sched. execute_raced a c rnd sched final w =
                (case poll_raced (clock w)
                        (case arg_timeout a of None \<Rightarrow> DEFAULT_TIMEOUT_SEC | Some t \<Rightarrow> t)
                        (questionFile_of (generateQuestionId (clock w) rnd))
                        (responseFile_of (generateQuestionId (clock w) rnd)) sched w2 of
                   (Throw error, w3) \<Rightarrow>
                     cleanup_on_error final error
                       (questionFile_of (generateQuestionId (clock w) rnd))
                       (responseFile_of (generateQuestionId (clock w) rnd)) w3
                 | (Continue, w3) \<Rightarrow> (Continue, w3)
                 | (Return r, w3) \<Rightarrow> (Return r, w3))"
        by (simp add: execute_raced_def Let_def qd_def split: prod.splits tick.splits)
      with c2 show ?thesis by blast
    qed
  qed
qed

lemma poll_tick_raced_terminal:
  assumes "ab \<or> clock w - st > ts * 1000"
  shows "poll_tick_raced race ab st ts qf rf w =
     (if present qf w then
        (case unlinkSync qf (interfere race (log (Exists qf) w)) of
           (Inl e, w1) \<Rightarrow> (Throw e, w1)
         | (Inr u, w1) \<Rightarrow> (Return (if ab then aborted_outcome else timeout_outcome ts), w1))
      else (Return (if ab then aborted_outcome else timeout_outcome ts), log (Exists qf) w))"
  using assms
  by (auto simp add: poll_tick_raced_def unlink_if_exists_def existsSync_def
        split: prod.splits sum.splits)

lemma poll_tick_raced_Return_terminal:
  assumes "poll_tick_raced race ab st ts qf rf w = (Return r, w')"
      and "r = aborted_outcome \<or> r = timeout_outcome ts"
  shows "ab \<or> clock w - st > ts * 1000"
proof (rule ccontr)
  assume n: "\<not> (ab \<or> clock w - st > ts * 1000)"
  with assms(1) have "r = user_cancelled_outcome \<or> (\<exists>x. r = answered_outcome x)"
    by (auto simp add: poll_tick_raced_def split: json.splits prod.splits sum.splits if_splits bool.splits)
  with assms(2) show False using outcomes_differ by metis
qed

lemma poll_raced_Return_split:
  assumes "poll_raced st ts qf rf sched w = (Return r, w')"
  shows "\<exists>pre ab race env post wk. sched = pre @ (ab, race, env) # post
           \<and> poll_raced st ts qf rf pre w = (Continue, wk)
           \<and> poll_tick_raced race ab st ts qf rf wk = (Return r, w')"
  using assms
proof (induction sched arbitrary: w)
  case Nil
  then show ?case by simp
next
  case (Cons x sched)
  obtain ab race env where x: "x = (ab, race, env)" by (cases x)
  obtain t w1 where t: "poll_tick_raced race ab st ts qf rf w = (t, w1)"
    by (cases "poll_tick_raced race ab st ts qf rf w")
  show ?case
  proof (cases t)
    case Continue
    with Cons.prems x t have "poll_raced st ts qf rf sched (interfere env w1) = (Return r, w')" by simp
    from Cons.IH[OF this] obtain pre ab' race' env' post wk where
      h: "sched = pre @ (ab', race', env') # post"
         "poll_raced st ts qf rf pre (interfere env w1) = (Continue, wk)"
         "poll_tick_raced race' ab' st ts qf rf wk = (Return r, w')" by blast
    have "x # sched = ((ab, race, env) # pre) @ (ab', race', env') # post" using h(1) x by simp
    moreover have "poll_raced st ts qf rf ((ab, race, env) # pre) w = (Continue, wk)"
      using t Continue h(2) by simp
    ultimately show ?thesis using h(3) by blast
  next
    case (Return r')
    with Cons.prems x t have "r' = r" "w1 = w'" by simp_all
    with Return t x have "x # sched = [] @ (ab, race, env) # sched"
      "poll_raced st ts qf rf [] w = (Continue, w)"
      "poll_tick_raced race ab st ts qf rf w = (Return r, w')" by simp_all
    then show ?thesis by blast
  next
    case (Throw e)
    with Cons.prems x t show ?thesis by simp
  qed
qed


lemma execute_runs:
  "(\<exists>e w1. \<forall>sched. execute a c rnd sched w = (Throw e, w1))
   \<or> (\<exists>w2. clock w2 = clock w
          \<and> (\<forall>sched. execute a c rnd sched w =
                (case poll (clock w)
                        (case arg_timeout a of None \<Rightarrow> DEFAULT_TIMEOUT_SEC | Some t \<Rightarrow> t)
                        (questionFile_of (generateQuestionId (clock w) rnd))
                        (responseFile_of (generateQuestionId (clock w) rnd)) sched w2 of
                   (Throw error, w3) \<Rightarrow>
                     cleanup_on_error (\<lambda>w. w) error
                       (questionFile_of (generateQuestionId (clock w) rnd))
                       (responseFile_of (generateQuestionId (clock w) rnd)) w3
                 | (Continue, w3) \<Rightarrow> (Continue, w3)
                 | (Return r, w3) \<Rightarrow> (Return r, w3))))"
  using execute_raced_runs[of a c rnd "\<lambda>w. w" w]
proof
  assume "\<exists>e w1. \<forall>sched. execute_raced a c rnd sched (\<lambda>w. w) w = (Throw e, w1)"
  then show ?thesis by (auto simp add: execute_def)
next
  assume "\<exists>w2. clock w2 = clock w
          \<and> (\<forall>sched. execute_raced a c rnd sched (\<lambda>w. w) w =
                (case poll_raced (clock w)
                        (case arg_timeout a of None \<Rightarrow> DEFAULT_TIMEOUT_SEC | Some t \<Rightarrow> t)
                        (questionFile_of (generateQuestionId (clock w) rnd))
                        (responseFile_of (generateQuestionId (clock w) rnd)) sched w2 of
                   (Throw error, w3) \<Rightarrow>
                     cleanup_on_error (\<lambda>w. w) error
                       (questionFile_of (generateQuestionId (clock w) rnd))
                       (responseFile_of (generateQuestionId (clock w) rnd)) w3
                 | (Continue, w3) \<Rightarrow> (Continue, w3)
                 | (Return r, w3) \<Rightarrow> (Return r, w3)))"
  then obtain w2 where w2: "clock w2 = clock w"
     "\<And>sched. execute_raced a c rnd sched (\<lambda>w. w) w =
                (case poll_raced (clock w)
                        (case arg_timeout a of None \<Rightarrow> DEFAULT_TIMEOUT_SEC | Some t \<Rightarrow> t)
                        (questionFile_of (generateQuestionId (clock w) rnd))
                        (responseFile_of (generateQuestionId (clock w) rnd)) sched w2 of
                   (Throw error, w3) \<Rightarrow>
                     cleanup_on_error (\<lambda>w. w) error
                       (questionFile_of (generateQuestionId (clock w) rnd))
                       (responseFile_of (generateQuestionId (clock w) rnd)) w3
                 | (Continue, w3) \<Rightarrow> (Continue, w3)
                 | (Return r, w3) \<Rightarrow> (Return r, w3))"
    by blast
  have "\<forall>sched. execute a c rnd sched w =
                (case poll (clock w)
                        (case arg_timeout a of None \<Rightarrow> DEFAULT_TIMEOUT_SEC | Some t \<Rightarrow> t)
                        (questionFile_of (generateQuestionId (clock w) rnd))
                        (responseFile_of (generateQuestionId (clock w) rnd)) sched w2 of
                   (Throw error, w3) \<Rightarrow>
                     cleanup_on_error (\<lambda>w. w) error
                       (questionFile_of (generateQuestionId (clock w) rnd))
                       (responseFile_of (generateQuestionId (clock w) rnd)) w3
                 | (Continue, w3) \<Rightarrow> (Continue, w3)
                 | (Return r, w3) \<Rightarrow> (Return r, w3))"
    by (simp add: execute_def poll_def w2(2))
  with w2(1) show ?thesis by blast
qed

lemma cleanup_on_error_throws:
  "cleanup_on_error race error qf rf w \<noteq> (Return r, w')"
  "cleanup_on_error race error qf rf w \<noteq> (Continue, w')"
  by (auto simp add: cleanup_on_error_def split: prod.splits sum.splits)

lemma poll_terminal_frame:
  assumes "poll st ts qf rf sched w = (Return r, w')"
      and "r = aborted_outcome \<or> r = timeout_outcome ts"
  shows "\<exists>pre ab env post wk.
        sched = pre @ (ab, env) # post
      \<and> poll st ts qf rf pre w = (Continue, wk)
      \<and> w' = wk\<lparr>files := (if present qf wk then AList.delete qf (files wk) else files wk),
                 trace := trace wk @ (if present qf wk then [Exists qf, Unlink qf]
                                      else [Exists qf])\<rparr>"
proof -
  from poll_Return_split[OF assms(1)] obtain pre ab env post wk where
    s: "sched = pre @ (ab, env) # post"
       "poll st ts qf rf pre w = (Continue, wk)"
       "poll_tick ab st ts qf rf wk = (Return r, w')"
    by blast
  from poll_tick_Return_terminal[OF s(3) assms(2)] have c: "ab \<or> clock wk - st > ts * 1000" .
  note e = poll_tick_terminal[OF c, of qf rf]
  from e s(3) have nf: "\<not> (present qf wk \<and> Unlink qf \<in> set (failing wk))"
    by (auto split: if_splits)
  from e s(3) nf have "w' = wk\<lparr>files := (if present qf wk then AList.delete qf (files wk) else files wk),
        trace := trace wk @ (if present qf wk then [Exists qf, Unlink qf] else [Exists qf])\<rparr>"
    by (auto split: if_splits)
  with s(1,2) show ?thesis by blast
qed

lemma poll_raced_terminal_frame:
  assumes "poll_raced st ts qf rf sched w = (Return r, w')"
      and "r = aborted_outcome \<or> r = timeout_outcome ts"
  shows "\<exists>pre ab race env post wk.
        sched = pre @ (ab, race, env) # post
      \<and> poll_raced st ts qf rf pre w = (Continue, wk)
      \<and> w' = (if present qf wk
              then (log (Unlink qf) (interfere race (log (Exists qf) wk)))
                     \<lparr>files := AList.delete qf (files (interfere race (log (Exists qf) wk)))\<rparr>
              else log (Exists qf) wk)"
proof -
  from poll_raced_Return_split[OF assms(1)] obtain pre ab race env post wk where
    s: "sched = pre @ (ab, race, env) # post"
       "poll_raced st ts qf rf pre w = (Continue, wk)"
       "poll_tick_raced race ab st ts qf rf wk = (Return r, w')"
    by blast
  from poll_tick_raced_Return_terminal[OF s(3) assms(2)]
  have c: "ab \<or> clock wk - st > ts * 1000" .
  note e = poll_tick_raced_terminal[OF c, of race qf rf]
  from e s(3) have "w' = (if present qf wk
              then (log (Unlink qf) (interfere race (log (Exists qf) wk)))
                     \<lparr>files := AList.delete qf (files (interfere race (log (Exists qf) wk)))\<rparr>
              else log (Exists qf) wk)"
    by (auto simp add: unlinkSync_def split: if_splits)
  with s(1,2) show ?thesis by blast
qed

lemma abort_example:
  "execute ex_args ex_context [10, 11, 12] [(False, late_reply), (True, \<lambda>w. w)] w_empty =
     (Return \<lparr>o_responded = False, o_response = [], cancelled = True,
              reason = Some ''Agent aborted the request''\<rparr>,
      w_empty\<lparr>files := [(''response_q_1500_abc.json'',
                          Stringify (AResponse \<lparr>r_id = ''q_1500_abc'', response = ''late'',
                                responded = True, r_timestamp = 1600\<rparr>))],
               trace := [ExistsDir, WriteFile ''question_q_1500_abc.json'',
                         Exists ''response_q_1500_abc.json'',
                         Exists ''question_q_1500_abc.json'',
                         Unlink ''question_q_1500_abc.json'']\<rparr>)"
  by code_simp


lemma null_example:
  "poll_tick False 1000 300 (questionFile_of ''q1'') (responseFile_of ''q1'') w_null =
     (Continue,
      w_null\<lparr>files := [],
              trace := [Exists ''response_q1.json'', ReadFile ''response_q1.json'',
                        Exists ''question_q1.json'', Unlink ''question_q1.json'',
                        Unlink ''response_q1.json'']\<rparr>)"
  by code_simp

lemma raced_abort_example:
  "execute_raced ex_args ex_context [10, 11, 12] [(True, late_reply, \<lambda>w. w)] (\<lambda>w. w) w_empty =
     (Return \<lparr>o_responded = False, o_response = [], cancelled = True,
              reason = Some ''Agent aborted the request''\<rparr>,
      w_empty\<lparr>files := [(''response_q_1500_abc.json'',
                          Stringify (AResponse \<lparr>r_id = ''q_1500_abc'', response = ''late'',
                                responded = True, r_timestamp = 1600\<rparr>))],
               trace := [ExistsDir, WriteFile ''question_q_1500_abc.json'',
                         Exists ''question_q_1500_abc.json'',
                         Unlink ''question_q_1500_abc.json'']\<rparr>)"
  by code_simp

lemma unlink_if_exists_absent_raced:
  "\<not> present f w \<Longrightarrow> unlink_if_exists race f w = (Inr (), w\<lparr>trace := trace w @ [Exists f]\<rparr>)"
  by (simp add: unlink_if_exists_def existsSync_def log_def)

section \<open>The Requester's polling loop\<close>

text \<open>
  C8. A reply file that exists and does not parse is not ready: the iteration that reads
  it does not return and changes nothing in the mailbox (neither the request nor the
  reply file is deleted; only the two operations \<open>Exists\<close> and \<open>ReadFile\<close> on the reply
  file are recorded), and the next iteration, if the file is still unparseable and the
  call is neither aborted nor timed out, reads the same file again.
\<close>

theorem partial_reply_not_consumed:
  assumes "present rf w" and "map_of (files w) rf = Some Partial"
      and "\<not> clock w - st > ts * 1000"
      and "w2 = interfere env1 (w\<lparr>trace := trace w @ [Exists rf, ReadFile rf]\<rparr>)"
      and "present rf w2" and "map_of (files w2) rf = Some Partial"
      and "\<not> clock w2 - st > ts * 1000"
  shows "poll_tick False st ts qf rf w = (Continue, w\<lparr>trace := trace w @ [Exists rf, ReadFile rf]\<rparr>)
       \<and> poll st ts qf rf [(False, env1), (False, env2)] w =
           (Continue, interfere env2
              (w2\<lparr>trace := trace w @ [Exists rf, ReadFile rf, Exists rf, ReadFile rf]\<rparr>))"
proof -
  have a: "poll_tick False st ts qf rf w = (Continue, w\<lparr>trace := trace w @ [Exists rf, ReadFile rf]\<rparr>)"
    using assms(1-3) by (simp add: poll_tick_unfold fs_defs present_def)
  have t2: "trace w2 = trace w @ [Exists rf, ReadFile rf]"
    using assms(4) by (simp add: interfere_def)
  have b: "poll_tick False st ts qf rf w2 = (Continue, w2\<lparr>trace := trace w2 @ [Exists rf, ReadFile rf]\<rparr>)"
    using assms(5-7) by (simp add: poll_tick_unfold fs_defs present_def)
  show ?thesis
    using a b t2 assms(4) by simp
qed


theorem partial_reply_not_consumed_witness:
  "poll_tick False 1000 300 ''question_q1.json'' ''response_q1.json'' w_partial =
     (Continue, w_partial\<lparr>trace := [Exists ''response_q1.json'', ReadFile ''response_q1.json'']\<rparr>)
   \<and> poll 1000 300 ''question_q1.json'' ''response_q1.json''
       [(False, \<lambda>w. w\<lparr>clock := 2000\<rparr>), (False, \<lambda>w. w)] w_partial =
     (Continue, w_partial\<lparr>clock := 2000,
                    trace := [Exists ''response_q1.json'', ReadFile ''response_q1.json'',
                              Exists ''response_q1.json'', ReadFile ''response_q1.json'']\<rparr>)"
  using partial_reply_not_consumed
    [where rf = "''response_q1.json''" and w = w_partial and st = 1000 and ts = 300
       and qf = "''question_q1.json''" and ?env1.0 = "\<lambda>w. w\<lparr>clock := 2000\<rparr>"
       and ?env2.0 = "\<lambda>w. w", OF _ _ _ refl]
  by (simp add: w_partial_def present_def interfere_def del: poll_Nil poll_Cons)


text \<open>
  C10. A call that returns the abort outcome or the timeout outcome returns from an
  iteration that deletes the request file only: the reply file of the same id is as it was
  when that iteration began (present with the same text, or absent), and the only
  operations of the iteration are the existence check and the deletion of the request
  file. This is stated of the loop, of the call \<open>execute\<close> (the call was still polling,
  in the world \<open>wk\<close>, after the iterations before the last), and of the call among other
  processes that act between the check and the deletion, \<open>execute_raced\<close>: there the
  mailbox after the call is the one these processes left, less the request file. In any
  iteration, a reply file that is present before and absent after was removed on the path
  that parsed it: the iteration returns the answer or the user's cancellation, or, when
  the text was \<^verbatim>\<open>null\<close>, it goes on polling.
\<close>

theorem abort_and_timeout_leave_reply:
  "(poll st ts (questionFile_of i) (responseFile_of i) sched w = (Return r, w')
      \<and> (r = \<lparr>o_responded = False, o_response = [], cancelled = True,
                reason = Some ''Agent aborted the request''\<rparr>
         \<or> r = \<lparr>o_responded = False, o_response = [], cancelled = True,
                  reason = Some (''Timeout after '' @ show_int ts @
                                 '' seconds waiting for user response'')\<rparr>) \<longrightarrow>
    (\<exists>pre ab env post wk.
        sched = pre @ (ab, env) # post
      \<and> poll st ts (questionFile_of i) (responseFile_of i) pre w = (Continue, wk)
      \<and> map_of (files w') (responseFile_of i) = map_of (files wk) (responseFile_of i)
      \<and> files w' = (if present (questionFile_of i) wk
                    then AList.delete (questionFile_of i) (files wk) else files wk)
      \<and> dir_exists w' = dir_exists wk
      \<and> trace w' = trace wk @ (if present (questionFile_of i) wk
                               then [Exists (questionFile_of i), Unlink (questionFile_of i)]
                               else [Exists (questionFile_of i)])))
 \<and> (poll_tick ab0 st ts (questionFile_of i) (responseFile_of i) w0 = (t, w1)
      \<and> present (responseFile_of i) w0 \<and> \<not> present (responseFile_of i) w1 \<longrightarrow>
      (map_of (files w0) (responseFile_of i) = Some NullText \<and> t = Continue)
    \<or> (\<exists>v. map_of (files w0) (responseFile_of i) = Some (Stringify v)
           \<and> t = Return (if obj_responded v
                         then \<lparr>o_responded = True, o_response = obj_response v,
                               cancelled = False, reason = None\<rparr>
                         else \<lparr>o_responded = False, o_response = [], cancelled = True,
                               reason = Some ''User cancelled the request''\<rparr>)))
 \<and> (execute a c rnd sched2 w2 = (Return r2, w2')
      \<and> (r2 = \<lparr>o_responded = False, o_response = [], cancelled = True,
                 reason = Some ''Agent aborted the request''\<rparr>
         \<or> r2 = \<lparr>o_responded = False, o_response = [], cancelled = True,
                   reason = Some (''Timeout after '' @
                     show_int (case arg_timeout a of None \<Rightarrow> DEFAULT_TIMEOUT_SEC | Some t \<Rightarrow> t) @
                     '' seconds waiting for user response'')\<rparr>) \<longrightarrow>
    (\<exists>pre ab env post wk.
        sched2 = pre @ (ab, env) # post
      \<and> execute a c rnd pre w2 = (Continue, wk)
      \<and> map_of (files w2') (responseFile_of (generateQuestionId (clock w2) rnd))
          = map_of (files wk) (responseFile_of (generateQuestionId (clock w2) rnd))
      \<and> files w2' = (if present (questionFile_of (generateQuestionId (clock w2) rnd)) wk
                     then AList.delete (questionFile_of (generateQuestionId (clock w2) rnd))
                            (files wk)
                     else files wk)
      \<and> dir_exists w2' = dir_exists wk
      \<and> trace w2' = trace wk @
            (if present (questionFile_of (generateQuestionId (clock w2) rnd)) wk
             then [Exists (questionFile_of (generateQuestionId (clock w2) rnd)),
                   Unlink (questionFile_of (generateQuestionId (clock w2) rnd))]
             else [Exists (questionFile_of (generateQuestionId (clock w2) rnd))])))
 \<and> (execute_raced a c rnd sched3 final w3 = (Return r3, w3')
      \<and> (r3 = \<lparr>o_responded = False, o_response = [], cancelled = True,
                 reason = Some ''Agent aborted the request''\<rparr>
         \<or> r3 = \<lparr>o_responded = False, o_response = [], cancelled = True,
                   reason = Some (''Timeout after '' @
                     show_int (case arg_timeout a of None \<Rightarrow> DEFAULT_TIMEOUT_SEC | Some t \<Rightarrow> t) @
                     '' seconds waiting for user response'')\<rparr>) \<longrightarrow>
    (\<exists>pre ab race env post wk.
        sched3 = pre @ (ab, race, env) # post
      \<and> execute_raced a c rnd pre final w3 = (Continue, wk)
      \<and> files w3' =
          (if present (questionFile_of (generateQuestionId (clock w3) rnd)) wk
           then AList.delete (questionFile_of (generateQuestionId (clock w3) rnd))
                  (files (interfere race
                            (log (Exists (questionFile_of (generateQuestionId (clock w3) rnd))) wk)))
           else files wk)
      \<and> trace w3' = trace wk @
            (if present (questionFile_of (generateQuestionId (clock w3) rnd)) wk
             then [Exists (questionFile_of (generateQuestionId (clock w3) rnd)),
                   Unlink (questionFile_of (generateQuestionId (clock w3) rnd))]
             else [Exists (questionFile_of (generateQuestionId (clock w3) rnd))])))"
proof (intro conjI impI)
  assume h: "poll st ts (questionFile_of i) (responseFile_of i) sched w = (Return r, w')
      \<and> (r = \<lparr>o_responded = False, o_response = [], cancelled = True,
                reason = Some ''Agent aborted the request''\<rparr>
         \<or> r = \<lparr>o_responded = False, o_response = [], cancelled = True,
                  reason = Some (''Timeout after '' @ show_int ts @
                                 '' seconds waiting for user response'')\<rparr>)"
  then have r: "r = aborted_outcome \<or> r = timeout_outcome ts"
    by (simp add: aborted_outcome_def timeout_outcome_def)
  from h poll_terminal_frame[OF _ r] obtain pre ab env post wk where
    s: "sched = pre @ (ab, env) # post"
       "poll st ts (questionFile_of i) (responseFile_of i) pre w = (Continue, wk)"
       "w' = wk\<lparr>files := (if present (questionFile_of i) wk
                           then AList.delete (questionFile_of i) (files wk) else files wk),
                 trace := trace wk @ (if present (questionFile_of i) wk
                                      then [Exists (questionFile_of i), Unlink (questionFile_of i)]
                                      else [Exists (questionFile_of i)])\<rparr>"
    by blast
  have "map_of (files w') (responseFile_of i) = map_of (files wk) (responseFile_of i)"
    by (simp add: s(3) delete_conv' file_names_differ[symmetric])
  moreover have "files w' = (if present (questionFile_of i) wk
                    then AList.delete (questionFile_of i) (files wk) else files wk)"
    by (simp add: s(3))
  moreover have "dir_exists w' = dir_exists wk" by (simp add: s(3))
  moreover have "trace w' = trace wk @ (if present (questionFile_of i) wk
                               then [Exists (questionFile_of i), Unlink (questionFile_of i)]
                               else [Exists (questionFile_of i)])"
    by (simp add: s(3))
  ultimately show "\<exists>pre ab env post wk.
        sched = pre @ (ab, env) # post
      \<and> poll st ts (questionFile_of i) (responseFile_of i) pre w = (Continue, wk)
      \<and> map_of (files w') (responseFile_of i) = map_of (files wk) (responseFile_of i)
      \<and> files w' = (if present (questionFile_of i) wk
                    then AList.delete (questionFile_of i) (files wk) else files wk)
      \<and> dir_exists w' = dir_exists wk
      \<and> trace w' = trace wk @ (if present (questionFile_of i) wk
                               then [Exists (questionFile_of i), Unlink (questionFile_of i)]
                               else [Exists (questionFile_of i)])"
    using s(1,2) by blast
next
  assume h: "poll_tick ab0 st ts (questionFile_of i) (responseFile_of i) w0 = (t, w1)
      \<and> present (responseFile_of i) w0 \<and> \<not> present (responseFile_of i) w1"
  show "(map_of (files w0) (responseFile_of i) = Some NullText \<and> t = Continue)
    \<or> (\<exists>v. map_of (files w0) (responseFile_of i) = Some (Stringify v)
           \<and> t = Return (if obj_responded v
                         then \<lparr>o_responded = True, o_response = obj_response v,
                               cancelled = False, reason = None\<rparr>
                         else \<lparr>o_responded = False, o_response = [], cancelled = True,
                               reason = Some ''User cancelled the request''\<rparr>))"
  proof (cases "ab0 \<or> clock w0 - st > ts * 1000")
    case True
    from poll_tick_terminal[OF True, of "questionFile_of i" "responseFile_of i"] h
    have "present (responseFile_of i) w1 = present (responseFile_of i) w0"
      by (auto simp add: present_def delete_conv' file_names_differ[symmetric] split: if_splits)
    with h show ?thesis by simp
  next
    case False
    with h show ?thesis
      by (auto simp add: poll_tick_unfold fs_defs present_def delete_conv' file_names_differ
            file_names_differ[symmetric] answered_outcome_def user_cancelled_outcome_def
          split: json.splits prod.splits sum.splits if_splits bool.splits option.splits
            filetext.splits)
  qed
next
  let ?ts = "case arg_timeout a of None \<Rightarrow> DEFAULT_TIMEOUT_SEC | Some t \<Rightarrow> t"
  let ?qf = "questionFile_of (generateQuestionId (clock w2) rnd)"
  let ?rf = "responseFile_of (generateQuestionId (clock w2) rnd)"
  assume h: "execute a c rnd sched2 w2 = (Return r2, w2')
      \<and> (r2 = \<lparr>o_responded = False, o_response = [], cancelled = True,
                 reason = Some ''Agent aborted the request''\<rparr>
         \<or> r2 = \<lparr>o_responded = False, o_response = [], cancelled = True,
                   reason = Some (''Timeout after '' @ show_int ?ts @
                     '' seconds waiting for user response'')\<rparr>)"
  then have r: "r2 = aborted_outcome \<or> r2 = timeout_outcome ?ts"
    by (simp add: aborted_outcome_def timeout_outcome_def)
  from execute_runs[of a c rnd w2] h obtain wa where
    e: "\<And>sched. execute a c rnd sched w2 =
          (case poll (clock w2) ?ts ?qf ?rf sched wa of
             (Throw error, w3) \<Rightarrow> cleanup_on_error (\<lambda>w. w) error ?qf ?rf w3
           | (Continue, w3) \<Rightarrow> (Continue, w3)
           | (Return r, w3) \<Rightarrow> (Return r, w3))"
    by auto
  obtain t wb where p: "poll (clock w2) ?ts ?qf ?rf sched2 wa = (t, wb)"
    by (cases "poll (clock w2) ?ts ?qf ?rf sched2 wa")
  from h e[of sched2] p cleanup_on_error_throws(1)[of "\<lambda>w. w" _ ?qf ?rf wb]
  have "t = Return r2 \<and> wb = w2'"
    by (cases t) auto
  with p have p': "poll (clock w2) ?ts ?qf ?rf sched2 wa = (Return r2, w2')" by simp
  from poll_terminal_frame[OF p' r] obtain pre ab env post wk where
    s: "sched2 = pre @ (ab, env) # post"
       "poll (clock w2) ?ts ?qf ?rf pre wa = (Continue, wk)"
       "w2' = wk\<lparr>files := (if present ?qf wk then AList.delete ?qf (files wk) else files wk),
                  trace := trace wk @ (if present ?qf wk then [Exists ?qf, Unlink ?qf]
                                       else [Exists ?qf])\<rparr>"
    by blast
  have c: "execute a c rnd pre w2 = (Continue, wk)" using e[of pre] s(2) by simp
  have "map_of (files w2') ?rf = map_of (files wk) ?rf"
    by (simp add: s(3) delete_conv' file_names_differ[symmetric])
  moreover have "files w2' = (if present ?qf wk then AList.delete ?qf (files wk) else files wk)"
    by (simp add: s(3))
  moreover have "dir_exists w2' = dir_exists wk" by (simp add: s(3))
  moreover have "trace w2' = trace wk @ (if present ?qf wk then [Exists ?qf, Unlink ?qf]
                                         else [Exists ?qf])"
    by (simp add: s(3))
  ultimately show "\<exists>pre ab env post wk.
        sched2 = pre @ (ab, env) # post
      \<and> execute a c rnd pre w2 = (Continue, wk)
      \<and> map_of (files w2') ?rf = map_of (files wk) ?rf
      \<and> files w2' = (if present ?qf wk then AList.delete ?qf (files wk) else files wk)
      \<and> dir_exists w2' = dir_exists wk
      \<and> trace w2' = trace wk @ (if present ?qf wk then [Exists ?qf, Unlink ?qf]
                                 else [Exists ?qf])"
    using s(1) c by blast
next
  let ?ts = "case arg_timeout a of None \<Rightarrow> DEFAULT_TIMEOUT_SEC | Some t \<Rightarrow> t"
  let ?qf = "questionFile_of (generateQuestionId (clock w3) rnd)"
  let ?rf = "responseFile_of (generateQuestionId (clock w3) rnd)"
  assume h: "execute_raced a c rnd sched3 final w3 = (Return r3, w3')
      \<and> (r3 = \<lparr>o_responded = False, o_response = [], cancelled = True,
                 reason = Some ''Agent aborted the request''\<rparr>
         \<or> r3 = \<lparr>o_responded = False, o_response = [], cancelled = True,
                   reason = Some (''Timeout after '' @ show_int ?ts @
                     '' seconds waiting for user response'')\<rparr>)"
  then have r: "r3 = aborted_outcome \<or> r3 = timeout_outcome ?ts"
    by (simp add: aborted_outcome_def timeout_outcome_def)
  from execute_raced_runs[of a c rnd final w3] h obtain wa where
    e: "\<And>sched. execute_raced a c rnd sched final w3 =
          (case poll_raced (clock w3) ?ts ?qf ?rf sched wa of
             (Throw error, w4) \<Rightarrow> cleanup_on_error final error ?qf ?rf w4
           | (Continue, w4) \<Rightarrow> (Continue, w4)
           | (Return r, w4) \<Rightarrow> (Return r, w4))"
    by auto
  obtain t wb where p: "poll_raced (clock w3) ?ts ?qf ?rf sched3 wa = (t, wb)"
    by (cases "poll_raced (clock w3) ?ts ?qf ?rf sched3 wa")
  from h e[of sched3] p cleanup_on_error_throws(1)[of final _ ?qf ?rf wb]
  have "t = Return r3 \<and> wb = w3'"
    by (cases t) auto
  with p have p': "poll_raced (clock w3) ?ts ?qf ?rf sched3 wa = (Return r3, w3')" by simp
  from poll_raced_terminal_frame[OF p' r] obtain pre ab race env post wk where
    s: "sched3 = pre @ (ab, race, env) # post"
       "poll_raced (clock w3) ?ts ?qf ?rf pre wa = (Continue, wk)"
       "w3' = (if present ?qf wk
               then (log (Unlink ?qf) (interfere race (log (Exists ?qf) wk)))
                      \<lparr>files := AList.delete ?qf (files (interfere race (log (Exists ?qf) wk)))\<rparr>
               else log (Exists ?qf) wk)"
    by blast
  have c: "execute_raced a c rnd pre final w3 = (Continue, wk)" using e[of pre] s(2) by simp
  have "files w3' = (if present ?qf wk
           then AList.delete ?qf (files (interfere race (log (Exists ?qf) wk)))
           else files wk)"
    by (simp add: s(3) log_def)
  moreover have "trace w3' = trace wk @ (if present ?qf wk then [Exists ?qf, Unlink ?qf]
                                         else [Exists ?qf])"
    by (simp add: s(3) log_def interfere_def)
  ultimately show "\<exists>pre ab race env post wk.
        sched3 = pre @ (ab, race, env) # post
      \<and> execute_raced a c rnd pre final w3 = (Continue, wk)
      \<and> files w3' = (if present ?qf wk
           then AList.delete ?qf (files (interfere race (log (Exists ?qf) wk)))
           else files wk)
      \<and> trace w3' = trace wk @ (if present ?qf wk then [Exists ?qf, Unlink ?qf]
                                 else [Exists ?qf])"
    using s(1) c by blast
qed


theorem abort_and_timeout_leave_reply_witness:
  "poll 1000 300 (questionFile_of ''q1'') (responseFile_of ''q1'') [(True, \<lambda>w. w)] w_replied =
     (Return \<lparr>o_responded = False, o_response = [], cancelled = True,
              reason = Some ''Agent aborted the request''\<rparr>,
      w_replied\<lparr>files := [(''response_q1.json'', Stringify (AResponse ex_reply))],
                trace := [Exists ''question_q1.json'', Unlink ''question_q1.json'']\<rparr>)
 \<and> (\<exists>pre ab env post wk.
        [(True, \<lambda>w. w)] = pre @ (ab, env) # post
      \<and> poll 1000 300 (questionFile_of ''q1'') (responseFile_of ''q1'') pre w_replied = (Continue, wk)
      \<and> map_of [(''response_q1.json'', Stringify (AResponse ex_reply))] (responseFile_of ''q1'')
          = map_of (files wk) (responseFile_of ''q1'')
      \<and> [(''response_q1.json'', Stringify (AResponse ex_reply))] =
          (if present (questionFile_of ''q1'') wk
           then AList.delete (questionFile_of ''q1'') (files wk) else files wk)
      \<and> dir_exists w_replied = dir_exists wk
      \<and> [Exists ''question_q1.json'', Unlink ''question_q1.json''] =
          trace wk @ (if present (questionFile_of ''q1'') wk
                      then [Exists (questionFile_of ''q1''), Unlink (questionFile_of ''q1'')]
                      else [Exists (questionFile_of ''q1'')]))
 \<and> poll_tick False 1000 300 (questionFile_of ''q1'') (responseFile_of ''q1'') w_null =
     (Continue,
      w_null\<lparr>files := [],
              trace := [Exists ''response_q1.json'', ReadFile ''response_q1.json'',
                        Exists ''question_q1.json'', Unlink ''question_q1.json'',
                        Unlink ''response_q1.json'']\<rparr>)
 \<and> map_of (files w_null) (responseFile_of ''q1'') = Some NullText
 \<and> execute ex_args ex_context [10, 11, 12] [(False, late_reply), (True, \<lambda>w. w)] w_empty =
     (Return \<lparr>o_responded = False, o_response = [], cancelled = True,
              reason = Some ''Agent aborted the request''\<rparr>,
      w_empty\<lparr>files := [(''response_q_1500_abc.json'',
                          Stringify (AResponse \<lparr>r_id = ''q_1500_abc'', response = ''late'',
                                responded = True, r_timestamp = 1600\<rparr>))],
               trace := [ExistsDir, WriteFile ''question_q_1500_abc.json'',
                         Exists ''response_q_1500_abc.json'',
                         Exists ''question_q_1500_abc.json'',
                         Unlink ''question_q_1500_abc.json'']\<rparr>)
 \<and> (\<exists>pre ab env post wk.
        [(False, late_reply), (True, \<lambda>w. w)] = pre @ (ab, env) # post
      \<and> execute ex_args ex_context [10, 11, 12] pre w_empty = (Continue, wk)
      \<and> Some (Stringify (AResponse \<lparr>r_id = ''q_1500_abc'', response = ''late'',
                                     responded = True, r_timestamp = 1600\<rparr>))
          = map_of (files wk) ''response_q_1500_abc.json''
      \<and> [(''response_q_1500_abc.json'',
           Stringify (AResponse \<lparr>r_id = ''q_1500_abc'', response = ''late'',
                                  responded = True, r_timestamp = 1600\<rparr>))] =
          (if present ''question_q_1500_abc.json'' wk
           then AList.delete ''question_q_1500_abc.json'' (files wk) else files wk)
      \<and> dir_exists w_empty = dir_exists wk
      \<and> [ExistsDir, WriteFile ''question_q_1500_abc.json'', Exists ''response_q_1500_abc.json'',
          Exists ''question_q_1500_abc.json'', Unlink ''question_q_1500_abc.json''] =
          trace wk @ (if present ''question_q_1500_abc.json'' wk
                      then [Exists ''question_q_1500_abc.json'',
                            Unlink ''question_q_1500_abc.json'']
                      else [Exists ''question_q_1500_abc.json'']))
 \<and> execute_raced ex_args ex_context [10, 11, 12] [(True, late_reply, \<lambda>w. w)] (\<lambda>w. w) w_empty =
     (Return \<lparr>o_responded = False, o_response = [], cancelled = True,
              reason = Some ''Agent aborted the request''\<rparr>,
      w_empty\<lparr>files := [(''response_q_1500_abc.json'',
                          Stringify (AResponse \<lparr>r_id = ''q_1500_abc'', response = ''late'',
                                responded = True, r_timestamp = 1600\<rparr>))],
               trace := [ExistsDir, WriteFile ''question_q_1500_abc.json'',
                         Exists ''question_q_1500_abc.json'',
                         Unlink ''question_q_1500_abc.json'']\<rparr>)
 \<and> (\<exists>pre ab race env post wk.
        [(True, late_reply, \<lambda>w. w)] = pre @ (ab, race, env) # post
      \<and> execute_raced ex_args ex_context [10, 11, 12] pre (\<lambda>w. w) w_empty = (Continue, wk)
      \<and> [(''response_q_1500_abc.json'',
           Stringify (AResponse \<lparr>r_id = ''q_1500_abc'', response = ''late'',
                                  responded = True, r_timestamp = 1600\<rparr>))] =
          (if present ''question_q_1500_abc.json'' wk
           then AList.delete ''question_q_1500_abc.json''
                  (files (interfere race (log (Exists ''question_q_1500_abc.json'') wk)))
           else files wk)
      \<and> [ExistsDir, WriteFile ''question_q_1500_abc.json'',
          Exists ''question_q_1500_abc.json'', Unlink ''question_q_1500_abc.json''] =
          trace wk @ (if present ''question_q_1500_abc.json'' wk
                      then [Exists ''question_q_1500_abc.json'',
                            Unlink ''question_q_1500_abc.json'']
                      else [Exists ''question_q_1500_abc.json'']))"
proof -
  let ?abort = "\<lparr>o_responded = False, o_response = [], cancelled = True,
              reason = Some ''Agent aborted the request''\<rparr>"
  let ?late = "[(''response_q_1500_abc.json'',
                 Stringify (AResponse \<lparr>r_id = ''q_1500_abc'', response = ''late'',
                                responded = True, r_timestamp = 1600\<rparr>))]"
  let ?w' = "w_replied\<lparr>files := [(''response_q1.json'', Stringify (AResponse ex_reply))],
                trace := [Exists ''question_q1.json'', Unlink ''question_q1.json'']\<rparr>"
  let ?w1 = "w_null\<lparr>files := [],
              trace := [Exists ''response_q1.json'', ReadFile ''response_q1.json'',
                        Exists ''question_q1.json'', Unlink ''question_q1.json'',
                        Unlink ''response_q1.json'']\<rparr>"
  let ?w2' = "w_empty\<lparr>files := ?late,
               trace := [ExistsDir, WriteFile ''question_q_1500_abc.json'',
                         Exists ''response_q_1500_abc.json'',
                         Exists ''question_q_1500_abc.json'',
                         Unlink ''question_q_1500_abc.json'']\<rparr>"
  let ?w3' = "w_empty\<lparr>files := ?late,
               trace := [ExistsDir, WriteFile ''question_q_1500_abc.json'',
                         Exists ''question_q_1500_abc.json'',
                         Unlink ''question_q_1500_abc.json'']\<rparr>"
  have a: "poll 1000 300 (questionFile_of ''q1'') (responseFile_of ''q1'') [(True, \<lambda>w. w)] w_replied =
     (Return ?abort, ?w')"
    by (simp add: poll_tick_unfold fs_defs present_def w_replied_def questionFile_of_def
          responseFile_of_def aborted_outcome_def)
  have p: "present (responseFile_of ''q1'') w_null \<and> \<not> present (responseFile_of ''q1'') ?w1"
    by (simp add: present_def w_null_def responseFile_of_def)
  have n: "map_of (files w_null) (responseFile_of ''q1'') = Some NullText"
    by (simp add: w_null_def responseFile_of_def)
  have g: "generateQuestionId (clock w_empty) [10, 11, 12] = ''q_1500_abc''"
    by code_simp
  have q: "questionFile_of ''q_1500_abc'' = ''question_q_1500_abc.json''"
          "responseFile_of ''q_1500_abc'' = ''response_q_1500_abc.json''"
    by (simp_all add: questionFile_of_def responseFile_of_def)
  note t = abort_and_timeout_leave_reply
         [where st = 1000 and ts = 300 and i = "''q1''" and sched = "[(True, \<lambda>w. w)]"
            and w = w_replied and r = ?abort and w' = ?w'
            and ?ab0.0 = False and ?w0.0 = w_null and t = Continue and ?w1.0 = ?w1
            and a = ex_args and c = ex_context and rnd = "[10, 11, 12]"
            and ?sched2.0 = "[(False, late_reply), (True, \<lambda>w. w)]" and ?w2.0 = w_empty
            and ?r2.0 = ?abort and ?w2' = ?w2'
            and ?sched3.0 = "[(True, late_reply, \<lambda>w. w)]" and final = "\<lambda>w. w"
            and ?w3.0 = w_empty and ?r3.0 = ?abort and ?w3' = ?w3', unfolded g q]
  from t a null_example p n abort_example raced_abort_example
  show ?thesis
    by (simp del: poll_Nil poll_Cons poll_raced.simps)
qed



text \<open>
  C5. A guarded deletion whose target is absent when its existence is checked is the
  check alone, and raises no error, whatever the other processes do. So with the request
  file absent, the abort and timeout paths return their outcome, the path that parsed a
  reply deletes the reply and returns, and with both files absent the error path rethrows
  the error it caught, each without attempting a deletion of the absent file. No error of
  the path that reads a reply leaves the iteration (its \<^verbatim>\<open>catch\<close> is empty). In the run
  in which no other process acts between a check and the deletion it guards, a call of
  \<open>execute\<close> never throws \<open>ENOENT\<close>.
\<close>

theorem cleanup_of_absent_files:
  "(\<not> present f w \<longrightarrow>
      unlink_if_exists race f w = (Inr (), w\<lparr>trace := trace w @ [Exists f]\<rparr>))
 \<and> (\<not> present qf w \<and> (ab \<or> clock w - st > ts * 1000) \<longrightarrow>
      poll_tick_raced race ab st ts qf rf w =
        (Return (if ab
                 then \<lparr>o_responded = False, o_response = [], cancelled = True,
                       reason = Some ''Agent aborted the request''\<rparr>
                 else \<lparr>o_responded = False, o_response = [], cancelled = True,
                       reason = Some (''Timeout after '' @ show_int ts @
                                      '' seconds waiting for user response'')\<rparr>),
         w\<lparr>trace := trace w @ [Exists qf]\<rparr>))
 \<and> (\<not> present qf w \<and> \<not> clock w - st > ts * 1000 \<and> present rf w
      \<and> map_of (files w) rf = Some (Stringify v)
      \<and> ReadFile rf \<notin> set (failing w) \<and> Unlink rf \<notin> set (failing w) \<longrightarrow>
      poll_tick_raced race False st ts qf rf w =
        (Return (if obj_responded v
                 then \<lparr>o_responded = True, o_response = obj_response v, cancelled = False,
                       reason = None\<rparr>
                 else \<lparr>o_responded = False, o_response = [], cancelled = True,
                       reason = Some ''User cancelled the request''\<rparr>),
         w\<lparr>files := AList.delete rf (files w),
           trace := trace w @ [Exists rf, ReadFile rf, Exists qf, Unlink rf]\<rparr>))
 \<and> (\<not> present qf w \<and> \<not> present rf w \<longrightarrow>
      cleanup_on_error race e qf rf w =
        (Throw e, w\<lparr>trace := trace w @ [Exists qf, Exists rf]\<rparr>))
 \<and> (\<not> ab \<and> \<not> clock w - st > ts * 1000 \<longrightarrow>
      fst (poll_tick_raced race ab st ts qf rf w) \<noteq> Throw e')
 \<and> fst (execute a c rnd sched w) \<noteq> Throw ENOENT"
proof (intro conjI impI)
  assume "\<not> present f w"
  then show "unlink_if_exists race f w = (Inr (), w\<lparr>trace := trace w @ [Exists f]\<rparr>)"
    by (rule unlink_if_exists_absent_raced)
next
  assume h: "\<not> present qf w \<and> (ab \<or> clock w - st > ts * 1000)"
  then have "ab \<or> clock w - st > ts * 1000" by simp
  from poll_tick_raced_terminal[OF this, of race qf rf] h
  show "poll_tick_raced race ab st ts qf rf w =
        (Return (if ab
                 then \<lparr>o_responded = False, o_response = [], cancelled = True,
                       reason = Some ''Agent aborted the request''\<rparr>
                 else \<lparr>o_responded = False, o_response = [], cancelled = True,
                       reason = Some (''Timeout after '' @ show_int ts @
                                      '' seconds waiting for user response'')\<rparr>),
         w\<lparr>trace := trace w @ [Exists qf]\<rparr>)"
    by (simp add: log_def aborted_outcome_def timeout_outcome_def)
next
  assume h: "\<not> present qf w \<and> \<not> clock w - st > ts * 1000 \<and> present rf w
      \<and> map_of (files w) rf = Some (Stringify v)
      \<and> ReadFile rf \<notin> set (failing w) \<and> Unlink rf \<notin> set (failing w)"
  then show "poll_tick_raced race False st ts qf rf w =
        (Return (if obj_responded v
                 then \<lparr>o_responded = True, o_response = obj_response v, cancelled = False,
                       reason = None\<rparr>
                 else \<lparr>o_responded = False, o_response = [], cancelled = True,
                       reason = Some ''User cancelled the request''\<rparr>),
         w\<lparr>files := AList.delete rf (files w),
           trace := trace w @ [Exists rf, ReadFile rf, Exists qf, Unlink rf]\<rparr>)"
    by (simp add: poll_tick_raced_def unlink_if_exists_def existsSync_def readJson_def
          readFileSync_def unlinkSync_def JSON_parse_def log_def present_def
          answered_outcome_def user_cancelled_outcome_def)
next
  assume h: "\<not> present qf w \<and> \<not> present rf w"
  then have "\<not> present rf (w\<lparr>trace := trace w @ [Exists qf]\<rparr>)"
    by (simp add: present_def)
  with h show "cleanup_on_error race e qf rf w =
        (Throw e, w\<lparr>trace := trace w @ [Exists qf, Exists rf]\<rparr>)"
    by (simp add: cleanup_on_error_def unlink_if_exists_absent_raced)
next
  assume "\<not> ab \<and> \<not> clock w - st > ts * 1000"
  then show "fst (poll_tick_raced race ab st ts qf rf w) \<noteq> Throw e'"
    by (auto simp add: poll_tick_raced_def split: json.splits prod.splits sum.splits bool.splits)
next
  show "fst (execute a c rnd sched w) \<noteq> Throw ENOENT"
  proof
    assume "fst (execute a c rnd sched w) = Throw ENOENT"
    then have "execute a c rnd sched w = (Throw ENOENT, snd (execute a c rnd sched w))"
      by (metis prod.collapse)
    from execute_Throw_EIO[OF this] show False by simp
  qed
qed

theorem cleanup_of_absent_files_witness:
  "unlink_if_exists request_vanishes ''question_q1.json'' w_orphan =
     (Inr (), w_orphan\<lparr>trace := [Exists ''question_q1.json'']\<rparr>)
 \<and> poll_tick_raced request_vanishes True 1000 300 ''question_q1.json'' ''response_q1.json''
      w_orphan =
     (Return \<lparr>o_responded = False, o_response = [], cancelled = True,
              reason = Some ''Agent aborted the request''\<rparr>,
      w_orphan\<lparr>trace := [Exists ''question_q1.json'']\<rparr>)
 \<and> poll_tick_raced request_vanishes False 1000 300 ''question_q1.json'' ''response_q1.json''
      w_orphan =
     (Return \<lparr>o_responded = True, o_response = ''Use option B'', cancelled = False,
              reason = None\<rparr>,
      w_orphan\<lparr>files := [],
                trace := [Exists ''response_q1.json'', ReadFile ''response_q1.json'',
                          Exists ''question_q1.json'', Unlink ''response_q1.json'']\<rparr>)
 \<and> cleanup_on_error request_vanishes EIO ''question_q1.json'' ''response_q1.json'' w_empty =
     (Throw EIO, w_empty\<lparr>trace := [Exists ''question_q1.json'', Exists ''response_q1.json'']\<rparr>)
 \<and> fst (poll_tick_raced request_vanishes False 1000 300 ''question_q1.json''
          ''response_q1.json'' (w_replied\<lparr>failing := [Unlink ''response_q1.json'']\<rparr>))
     \<noteq> Throw EIO
 \<and> fst (execute ex_args ex_context [10, 11, 12]
          [(False, \<lambda>w. w\<lparr>files := []\<rparr>), (True, \<lambda>w. w)] w_empty)
     \<noteq> Throw ENOENT"
proof -
  from cleanup_of_absent_files
          [where f = "''question_q1.json''" and w = w_orphan and qf = "''question_q1.json''"
             and ab = True and st = 1000 and ts = 300 and rf = "''response_q1.json''"
             and v = "AResponse ex_reply" and e = EIO and a = ex_args and c = ex_context
             and rnd = "[10, 11, 12]" and e' = EIO and race = request_vanishes
             and sched = "[(False, \<lambda>w. w\<lparr>files := []\<rparr>), (True, \<lambda>w. w)]"]
        cleanup_of_absent_files
          [where f = "''question_q1.json''" and w = w_orphan and qf = "''question_q1.json''"
             and ab = False and st = 1000 and ts = 300 and rf = "''response_q1.json''"
             and v = "AResponse ex_reply" and e = EIO and a = ex_args and c = ex_context
             and rnd = "[10, 11, 12]" and e' = EIO and race = request_vanishes
             and sched = "[(False, \<lambda>w. w\<lparr>files := []\<rparr>), (True, \<lambda>w. w)]"]
        cleanup_of_absent_files
          [where f = "''question_q1.json''" and w = w_empty and qf = "''question_q1.json''"
             and ab = True and st = 1000 and ts = 300 and rf = "''response_q1.json''"
             and v = "AResponse ex_reply" and e = EIO and a = ex_args and c = ex_context
             and rnd = "[10, 11, 12]" and e' = EIO and race = request_vanishes
             and sched = "[(False, \<lambda>w. w\<lparr>files := []\<rparr>), (True, \<lambda>w. w)]"]
        cleanup_of_absent_files
          [where f = "''question_q1.json''"
             and w = "w_replied\<lparr>failing := [Unlink ''response_q1.json'']\<rparr>"
             and qf = "''question_q1.json''"
             and ab = False and st = 1000 and ts = 300 and rf = "''response_q1.json''"
             and v = "AResponse ex_reply" and e = EIO and a = ex_args and c = ex_context
             and rnd = "[10, 11, 12]" and e' = EIO and race = request_vanishes
             and sched = "[(False, \<lambda>w. w\<lparr>files := []\<rparr>), (True, \<lambda>w. w)]"]
  show ?thesis
    by (simp add: w_orphan_def w_empty_def w_replied_def present_def obj_responded_def
          obj_response_def ex_reply_def)
qed

text \<open>
  The request file is there when the aborted iteration checks it, and another process
  removes it before the deletion: \<^verbatim>\<open>unlinkSync\<close> throws \<open>ENOENT\<close>, the outer \<^verbatim>\<open>catch\<close> finds
  nothing left to delete and rethrows, and the call throws instead of returning the
  cancelled outcome.
\<close>

theorem cleanup_race_counterexample:
  "execute_raced ex_args ex_context [10, 11, 12] [(True, request_vanishes, \<lambda>w. w)] (\<lambda>w. w)
     w_empty =
     (Throw ENOENT,
      w_empty\<lparr>trace := [ExistsDir, WriteFile ''question_q_1500_abc.json'',
                         Exists ''question_q_1500_abc.json'',
                         Unlink ''question_q_1500_abc.json'',
                         Exists ''question_q_1500_abc.json'',
                         Exists ''response_q_1500_abc.json'']\<rparr>)"
  by code_simp

section \<open>The Responder's input collection\<close>

text \<open>
  C3 (as amended). An empty line ends the input exactly when a non-empty line was entered
  before it. Empty lines entered before any non-empty line are ignored, however many they
  are: an input of \<open>n\<close> empty lines followed by non-empty lines \<open>ls\<close> leaves the collection
  waiting with nothing written, and the first empty line after a non-empty \<open>ls\<close> ends it
  with one write of the reply file, the lines after it left unread.
\<close>

theorem input_ends_at_empty_line_after_content:
  "([] \<notin> set ls \<longrightarrow> promptUser q (replicate n [] @ ls) w = (Pending, [], w))
 \<and> (ls \<noteq> [] \<and> [] \<notin> set ls \<longrightarrow>
      (\<exists>st w'. promptUser q (replicate n [] @ ls @ [] # rest) w = (st, rest, w')
             \<and> st \<noteq> Pending
             \<and> trace w' = trace w @ [WriteFile (responseFile_of (obj_id q))]))"
proof (intro conjI impI)
  assume "[] \<notin> set ls"
  then show "promptUser q (replicate n [] @ ls) w = (Pending, [], w)"
    by (rule promptUser_pending)
next
  assume h: "ls \<noteq> [] \<and> [] \<notin> set ls"
  define r where "r = (if toLowerCase (trim (join ls)) = ''cancel''
            then writeResponse (obj_id q) [] False w
            else writeResponse (obj_id q) (trim (join ls)) True w)"
  have t: "trace (snd r) = trace w @ [WriteFile (responseFile_of (obj_id q))]"
    by (simp add: r_def writeResponse_trace)
  have p: "promptUser q (replicate n [] @ ls @ [] # rest) w =
     (case r of (Inl e, w1) \<Rightarrow> (Uncaught e, rest, w1) | (Inr u, w1) \<Rightarrow> (Resolved, rest, w1))"
    using h promptUser_submit[of ls q n rest w] by (simp add: r_def)
  obtain x w1 where r: "r = (x, w1)" by (cases r)
  show "\<exists>st w'. promptUser q (replicate n [] @ ls @ [] # rest) w = (st, rest, w')
             \<and> st \<noteq> Pending
             \<and> trace w' = trace w @ [WriteFile (responseFile_of (obj_id q))]"
    using p r t by (cases x) auto
qed

theorem input_ends_at_empty_line_after_content_witness:
  "promptUser (AQuestion ex_question) ['''', '''', '''', ''Use option B'', ''or C''] w_asked
     = (Pending, [], w_asked)
 \<and> (\<exists>st w'. promptUser (AQuestion ex_question) ['''', '''', ''Use option B'', ''or C'', '''', ''next''] w_asked
               = (st, [''next''], w')
          \<and> st \<noteq> Pending
          \<and> trace w' = trace w_asked @ [WriteFile ''response_q1.json''])"
  using input_ends_at_empty_line_after_content
          [where ls = "[''Use option B'', ''or C'']" and n = 3 and q = "AQuestion ex_question"
             and w = w_asked and rest = "[''next'']"]
        input_ends_at_empty_line_after_content
          [where ls = "[''Use option B'', ''or C'']" and n = 2 and q = "AQuestion ex_question"
             and w = w_asked and rest = "[''next'']"]
  by (simp add: numeral_3_eq_3 numeral_2_eq_2 obj_id_def ex_question_def responseFile_of_def)


text \<open>
  Two consecutive empty lines with no non-empty line before them do not end the
  collection: the promise is still pending and nothing is written.
\<close>

theorem two_empty_lines_counterexample:
  "promptUser (AQuestion ex_question) ['''', ''''] w_asked = (Pending, [], w_asked)"
  by (simp add: promptUser_def)


section \<open>The round trip\<close>

text \<open>
  C1. For an answered request the text that \<open>execute\<close> returns is the text the Responder
  collected. The Responder, given the non-empty lines \<open>ls\<close> and the empty line that
  submits them, writes a reply record with \<open>responded = True\<close> whose text is the lines
  joined by newlines and trimmed (when that text is not the cancel keyword): for an id
  without \<^verbatim>\<open>/\<close> and NUL, as \<^verbatim>\<open>generateQuestionId\<close> makes them, into the entry
  \<^verbatim>\<open>response_<id>.json\<close>, and for any id whatever, that record is what it hands to
  \<^verbatim>\<open>fs.writeFileSync\<close> under the joined name. The Requester's iteration that finds a reply
  record with \<open>responded = True\<close> returns exactly its text; and a call of \<open>execute\<close> on an
  empty mailbox, with a Responder that scans during the first sleep and is given that
  input, returns the joined and trimmed text.
\<close>

theorem round_trip:
  "(ls \<noteq> [] \<and> [] \<notin> set ls \<and> toLowerCase (trim (join ls)) \<noteq> ''cancel''
      \<and> dir_exists w \<and> WriteFile (responseFile_of (q_id q)) \<notin> set (failing w)
      \<and> plain_id (q_id q) \<longrightarrow>
      promptUser (AQuestion q) (replicate n [] @ ls @ [] # rest) w =
        (Resolved, rest,
         w\<lparr>files := AList.update (responseFile_of (q_id q))
                      (Stringify (AResponse \<lparr>r_id = q_id q, response = trim (join ls),
                                               responded = True, r_timestamp = clock w\<rparr>))
                      (files w),
           trace := trace w @ [WriteFile (responseFile_of (q_id q))]\<rparr>))
 \<and> (ls \<noteq> [] \<and> [] \<notin> set ls \<and> toLowerCase (trim (join ls)) \<noteq> ''cancel'' \<longrightarrow>
      promptUser (AQuestion q) (replicate n [] @ ls @ [] # rest) w =
        (case writeFileSync_joined (responseFile_of (q_id q))
                (Stringify (AResponse \<lparr>r_id = q_id q, response = trim (join ls),
                                         responded = True, r_timestamp = clock w\<rparr>)) w of
           (Inl e, w1) \<Rightarrow> (Uncaught e, rest, w1)
         | (Inr u, w1) \<Rightarrow> (Resolved, rest, w1)))
 \<and> (present (responseFile_of i) w2
      \<and> map_of (files w2) (responseFile_of i) = Some (Stringify (AResponse r))
      \<and> responded r
      \<and> \<not> clock w2 - st > ts * 1000
      \<and> ReadFile (responseFile_of i) \<notin> set (failing w2)
      \<and> Unlink (responseFile_of i) \<notin> set (failing w2)
      \<and> Unlink (questionFile_of i) \<notin> set (failing w2) \<longrightarrow>
      fst (poll_tick False st ts (questionFile_of i) (responseFile_of i) w2) =
        Return \<lparr>o_responded = True, o_response = response r, cancelled = False,
                reason = None\<rparr>)
 \<and> (files w0 = [] \<and> failing w0 = []
      \<and> ls \<noteq> [] \<and> [] \<notin> set ls \<and> toLowerCase (trim (join ls)) \<noteq> ''cancel''
      \<and> 0 \<le> (case arg_timeout a of None \<Rightarrow> DEFAULT_TIMEOUT_SEC | Some t \<Rightarrow> t) \<longrightarrow>
      fst (execute a c rnd
             ((False, responder_scans (replicate n [] @ ls @ [] # rest)) # (False, env) # sched)
             w0) =
        Return \<lparr>o_responded = True, o_response = trim (join ls), cancelled = False,
                reason = None\<rparr>)"
proof (intro conjI impI)
  assume h: "ls \<noteq> [] \<and> [] \<notin> set ls \<and> toLowerCase (trim (join ls)) \<noteq> ''cancel''
      \<and> dir_exists w \<and> WriteFile (responseFile_of (q_id q)) \<notin> set (failing w)
      \<and> plain_id (q_id q)"
  then have "writeResponse (q_id q) (trim (join ls)) True w =
      (Inr (), w\<lparr>files := AList.update (responseFile_of (q_id q))
                      (Stringify (AResponse \<lparr>r_id = q_id q, response = trim (join ls),
                                               responded = True, r_timestamp = clock w\<rparr>))
                      (files w),
           trace := trace w @ [WriteFile (responseFile_of (q_id q))]\<rparr>)"
    using writeResponse_ok by simp
  with h promptUser_submit[of ls "AQuestion q" n rest w]
  show "promptUser (AQuestion q) (replicate n [] @ ls @ [] # rest) w =
        (Resolved, rest,
         w\<lparr>files := AList.update (responseFile_of (q_id q))
                      (Stringify (AResponse \<lparr>r_id = q_id q, response = trim (join ls),
                                               responded = True, r_timestamp = clock w\<rparr>))
                      (files w),
           trace := trace w @ [WriteFile (responseFile_of (q_id q))]\<rparr>)"
    by (simp add: obj_id_def)
next
  assume h: "ls \<noteq> [] \<and> [] \<notin> set ls \<and> toLowerCase (trim (join ls)) \<noteq> ''cancel''"
  with promptUser_submit[of ls "AQuestion q" n rest w]
  show "promptUser (AQuestion q) (replicate n [] @ ls @ [] # rest) w =
        (case writeFileSync_joined (responseFile_of (q_id q))
                (Stringify (AResponse \<lparr>r_id = q_id q, response = trim (join ls),
                                         responded = True, r_timestamp = clock w\<rparr>)) w of
           (Inl e, w1) \<Rightarrow> (Uncaught e, rest, w1)
         | (Inr u, w1) \<Rightarrow> (Resolved, rest, w1))"
    by (simp add: obj_id_def writeResponse_def)
next
  assume h: "present (responseFile_of i) w2
      \<and> map_of (files w2) (responseFile_of i) = Some (Stringify (AResponse r))
      \<and> responded r
      \<and> \<not> clock w2 - st > ts * 1000
      \<and> ReadFile (responseFile_of i) \<notin> set (failing w2)
      \<and> Unlink (responseFile_of i) \<notin> set (failing w2)
      \<and> Unlink (questionFile_of i) \<notin> set (failing w2)"
  then show "fst (poll_tick False st ts (questionFile_of i) (responseFile_of i) w2) =
        Return \<lparr>o_responded = True, o_response = response r, cancelled = False,
                reason = None\<rparr>"
    using poll_tick_reply[where rf = "responseFile_of i" and w = w2 and v = "AResponse r"
             and st = st and ts = ts and qf = "questionFile_of i"] file_names_differ
    by (simp add: obj_responded_def obj_response_def answered_outcome_def)
next
  assume h: "files w0 = [] \<and> failing w0 = []
      \<and> ls \<noteq> [] \<and> [] \<notin> set ls \<and> toLowerCase (trim (join ls)) \<noteq> ''cancel''
      \<and> 0 \<le> (case arg_timeout a of None \<Rightarrow> DEFAULT_TIMEOUT_SEC | Some t \<Rightarrow> t)"
  then show "fst (execute a c rnd
             ((False, responder_scans (replicate n [] @ ls @ [] # rest)) # (False, env) # sched)
             w0) =
        Return \<lparr>o_responded = True, o_response = trim (join ls), cancelled = False,
                reason = None\<rparr>"
    using execute_end_to_end[of w0 ls a c rnd n rest env sched]
    by (simp add: answered_outcome_def)
qed

theorem round_trip_witness:
  "promptUser (AQuestion ex_question) ['''', '' Use option B'', ''or C '', '''', ''next''] w_asked =
     (Resolved, [''next''],
      w_asked\<lparr>files := [(''question_q1.json'', Stringify (AQuestion ex_question)),
                         (''response_q1.json'',
                          Stringify (AResponse \<lparr>r_id = ''q1'',
                                response = ''Use option B'' @ [CHR 0x0A] @ ''or C'',
                                responded = True, r_timestamp = 1500\<rparr>))],
              trace := [WriteFile ''response_q1.json'']\<rparr>)
 \<and> fst (poll_tick False 1000 300 (questionFile_of ''q1'') (responseFile_of ''q1'') w_replied) =
     Return \<lparr>o_responded = True, o_response = ''Use option B'', cancelled = False, reason = None\<rparr>
 \<and> fst (execute ex_args ex_context [10, 11, 12]
           [(False, responder_scans ['''', '' Use option B'', ''or C '', '''', ''next'']),
            (False, \<lambda>w. w)]
           w_empty) =
     Return \<lparr>o_responded = True, o_response = ''Use option B'' @ [CHR 0x0A] @ ''or C'',
             cancelled = False, reason = None\<rparr>"
proof -
  have nc: "toLowerCase (trim (join ['' Use option B'', ''or C ''])) \<noteq> ''cancel''"
    unfolding trim_example by (simp add: toLowerCase_def)
  from round_trip
         [where ls = "['' Use option B'', ''or C '']" and w = w_asked and q = ex_question
            and n = 1 and rest = "[''next'']" and i = "''q1''" and ?w2.0 = w_replied
            and r = ex_reply and st = 1000 and ts = 300 and ?w0.0 = w_empty and a = ex_args
            and c = ex_context and rnd = "[10, 11, 12]" and env = "\<lambda>w. w" and sched = "[]"]
       nc
  show ?thesis
    by (simp add: trim_def isWhiteSpace_def w_asked_def w_replied_def w_empty_def
          ex_question_def ex_reply_def ex_args_def present_def responseFile_of_def plain_id_def)
qed

text \<open>
  C4. When the collected text is \<^verbatim>\<open>cancel\<close> in any letter case, the Responder writes a
  reply record with \<open>responded = False\<close> and empty text (into the entry
  \<^verbatim>\<open>response_<id>.json\<close> for an id without \<^verbatim>\<open>/\<close> and NUL; for any id, that record is what
  it hands to \<^verbatim>\<open>fs.writeFileSync\<close> under the joined name); the Requester's iteration that
  finds a reply record with \<open>responded = False\<close> returns the cancelled outcome with the
  reason \<^verbatim>\<open>User cancelled the request\<close> and removes the reply file. In every outcome an
  iteration returns, the reason is present exactly when \<open>cancelled\<close> is true. A call of
  \<open>execute\<close> on an empty mailbox, with a Responder that scans during the first sleep and
  is given such an input, returns that cancelled outcome.
\<close>

theorem cancel_keyword:
  "(ls \<noteq> [] \<and> [] \<notin> set ls \<and> toLowerCase (trim (join ls)) = ''cancel''
      \<and> dir_exists w \<and> WriteFile (responseFile_of (q_id q)) \<notin> set (failing w)
      \<and> plain_id (q_id q) \<longrightarrow>
      promptUser (AQuestion q) (replicate n [] @ ls @ [] # rest) w =
        (Resolved, rest,
         w\<lparr>files := AList.update (responseFile_of (q_id q))
                      (Stringify (AResponse \<lparr>r_id = q_id q, response = [], responded = False,
                                               r_timestamp = clock w\<rparr>)) (files w),
           trace := trace w @ [WriteFile (responseFile_of (q_id q))]\<rparr>))
 \<and> (ls \<noteq> [] \<and> [] \<notin> set ls \<and> toLowerCase (trim (join ls)) = ''cancel'' \<longrightarrow>
      promptUser (AQuestion q) (replicate n [] @ ls @ [] # rest) w =
        (case writeFileSync_joined (responseFile_of (q_id q))
                (Stringify (AResponse \<lparr>r_id = q_id q, response = [], responded = False,
                                         r_timestamp = clock w\<rparr>)) w of
           (Inl e, w1) \<Rightarrow> (Uncaught e, rest, w1)
         | (Inr u, w1) \<Rightarrow> (Resolved, rest, w1)))
 \<and> (present (responseFile_of i) w2
      \<and> map_of (files w2) (responseFile_of i) = Some (Stringify (AResponse r))
      \<and> \<not> responded r
      \<and> \<not> clock w2 - st > ts * 1000
      \<and> ReadFile (responseFile_of i) \<notin> set (failing w2)
      \<and> Unlink (responseFile_of i) \<notin> set (failing w2)
      \<and> Unlink (questionFile_of i) \<notin> set (failing w2) \<longrightarrow>
      fst (poll_tick False st ts (questionFile_of i) (responseFile_of i) w2) =
        Return \<lparr>o_responded = False, o_response = [], cancelled = True,
                reason = Some ''User cancelled the request''\<rparr>
      \<and> \<not> present (responseFile_of i)
             (snd (poll_tick False st ts (questionFile_of i) (responseFile_of i) w2)))
 \<and> (poll_tick ab st ts qf rf w3 = (Return r', w4) \<longrightarrow> (reason r' \<noteq> None) = cancelled r')
 \<and> (files w0 = [] \<and> failing w0 = []
      \<and> ls \<noteq> [] \<and> [] \<notin> set ls \<and> toLowerCase (trim (join ls)) = ''cancel''
      \<and> 0 \<le> (case arg_timeout a of None \<Rightarrow> DEFAULT_TIMEOUT_SEC | Some t \<Rightarrow> t) \<longrightarrow>
      fst (execute a c rnd
             ((False, responder_scans (replicate n [] @ ls @ [] # rest)) # (False, env) # sched)
             w0) =
        Return \<lparr>o_responded = False, o_response = [], cancelled = True,
                reason = Some ''User cancelled the request''\<rparr>)"
proof (intro conjI impI)
  assume h: "ls \<noteq> [] \<and> [] \<notin> set ls \<and> toLowerCase (trim (join ls)) = ''cancel''
      \<and> dir_exists w \<and> WriteFile (responseFile_of (q_id q)) \<notin> set (failing w)
      \<and> plain_id (q_id q)"
  then have "writeResponse (q_id q) [] False w =
      (Inr (), w\<lparr>files := AList.update (responseFile_of (q_id q))
                      (Stringify (AResponse \<lparr>r_id = q_id q, response = [], responded = False,
                                               r_timestamp = clock w\<rparr>)) (files w),
           trace := trace w @ [WriteFile (responseFile_of (q_id q))]\<rparr>)"
    using writeResponse_ok by simp
  with h promptUser_submit[of ls "AQuestion q" n rest w]
  show "promptUser (AQuestion q) (replicate n [] @ ls @ [] # rest) w =
        (Resolved, rest,
         w\<lparr>files := AList.update (responseFile_of (q_id q))
                      (Stringify (AResponse \<lparr>r_id = q_id q, response = [], responded = False,
                                               r_timestamp = clock w\<rparr>)) (files w),
           trace := trace w @ [WriteFile (responseFile_of (q_id q))]\<rparr>)"
    by (simp add: obj_id_def)
next
  assume h: "ls \<noteq> [] \<and> [] \<notin> set ls \<and> toLowerCase (trim (join ls)) = ''cancel''"
  with promptUser_submit[of ls "AQuestion q" n rest w]
  show "promptUser (AQuestion q) (replicate n [] @ ls @ [] # rest) w =
        (case writeFileSync_joined (responseFile_of (q_id q))
                (Stringify (AResponse \<lparr>r_id = q_id q, response = [], responded = False,
                                         r_timestamp = clock w\<rparr>)) w of
           (Inl e, w1) \<Rightarrow> (Uncaught e, rest, w1)
         | (Inr u, w1) \<Rightarrow> (Resolved, rest, w1))"
    by (simp add: obj_id_def writeResponse_def)
next
  assume h: "present (responseFile_of i) w2
      \<and> map_of (files w2) (responseFile_of i) = Some (Stringify (AResponse r))
      \<and> \<not> responded r
      \<and> \<not> clock w2 - st > ts * 1000
      \<and> ReadFile (responseFile_of i) \<notin> set (failing w2)
      \<and> Unlink (responseFile_of i) \<notin> set (failing w2)
      \<and> Unlink (questionFile_of i) \<notin> set (failing w2)"
  then have p: "poll_tick False st ts (questionFile_of i) (responseFile_of i) w2 =
     (Return (if obj_responded (AResponse r) then answered_outcome (obj_response (AResponse r))
              else user_cancelled_outcome),
      w2\<lparr>files := AList.delete (responseFile_of i)
                   (if present (questionFile_of i) w2
                    then AList.delete (questionFile_of i) (files w2) else files w2),
        trace := trace w2 @ [Exists (responseFile_of i), ReadFile (responseFile_of i)] @
                 (if present (questionFile_of i) w2
                  then [Exists (questionFile_of i), Unlink (questionFile_of i)]
                  else [Exists (questionFile_of i)]) @ [Unlink (responseFile_of i)]\<rparr>)"
    using poll_tick_reply[where rf = "responseFile_of i" and w = w2 and v = "AResponse r"
             and st = st and ts = ts and qf = "questionFile_of i"] file_names_differ
    by simp
  from p h show "fst (poll_tick False st ts (questionFile_of i) (responseFile_of i) w2) =
        Return \<lparr>o_responded = False, o_response = [], cancelled = True,
                reason = Some ''User cancelled the request''\<rparr>"
    by (simp add: obj_responded_def user_cancelled_outcome_def)
  from p show "\<not> present (responseFile_of i)
             (snd (poll_tick False st ts (questionFile_of i) (responseFile_of i) w2))"
    by (simp add: present_def delete_conv')
next
  assume "poll_tick ab st ts qf rf w3 = (Return r', w4)"
  then show "(reason r' \<noteq> None) = cancelled r'" by (rule poll_tick_reason)
next
  assume h: "files w0 = [] \<and> failing w0 = []
      \<and> ls \<noteq> [] \<and> [] \<notin> set ls \<and> toLowerCase (trim (join ls)) = ''cancel''
      \<and> 0 \<le> (case arg_timeout a of None \<Rightarrow> DEFAULT_TIMEOUT_SEC | Some t \<Rightarrow> t)"
  then show "fst (execute a c rnd
             ((False, responder_scans (replicate n [] @ ls @ [] # rest)) # (False, env) # sched)
             w0) =
        Return \<lparr>o_responded = False, o_response = [], cancelled = True,
                reason = Some ''User cancelled the request''\<rparr>"
    using execute_end_to_end[of w0 ls a c rnd n rest env sched]
    by (simp add: user_cancelled_outcome_def)
qed


theorem cancel_keyword_witness:
  "promptUser (AQuestion ex_question) ['' CaNcEl '', '''', ''next''] w_asked =
     (Resolved, [''next''],
      w_asked\<lparr>files := [(''question_q1.json'', Stringify (AQuestion ex_question)),
                         (''response_q1.json'',
                          Stringify (AResponse \<lparr>r_id = ''q1'', response = [],
                                responded = False, r_timestamp = 1500\<rparr>))],
              trace := [WriteFile ''response_q1.json'']\<rparr>)
 \<and> fst (poll_tick False 1000 300 (questionFile_of ''q1'') (responseFile_of ''q1'')
          (snd (snd (promptUser (AQuestion ex_question) ['' CaNcEl '', '''', ''next''] w_asked)))) =
     Return \<lparr>o_responded = False, o_response = [], cancelled = True,
             reason = Some ''User cancelled the request''\<rparr>
 \<and> \<not> present (responseFile_of ''q1'')
       (snd (poll_tick False 1000 300 (questionFile_of ''q1'') (responseFile_of ''q1'')
          (snd (snd (promptUser (AQuestion ex_question) ['' CaNcEl '', '''', ''next''] w_asked)))))
 \<and> (reason aborted_outcome \<noteq> None) = cancelled aborted_outcome
 \<and> fst (execute ex_args ex_context [10, 11, 12]
           [(False, responder_scans ['' CaNcEl '', '''', ''next'']), (False, \<lambda>w. w)] w_empty) =
     Return \<lparr>o_responded = False, o_response = [], cancelled = True,
             reason = Some ''User cancelled the request''\<rparr>"
proof -
  let ?w1 = "w_asked\<lparr>files := [(''question_q1.json'', Stringify (AQuestion ex_question)),
                         (''response_q1.json'',
                          Stringify (AResponse \<lparr>r_id = ''q1'', response = [],
                                responded = False, r_timestamp = 1500\<rparr>))],
              trace := [WriteFile ''response_q1.json'']\<rparr>"
  have ab: "poll_tick True 1000 300 ''q'' ''r'' w_empty =
              (Return aborted_outcome, w_empty\<lparr>trace := [Exists ''q'']\<rparr>)"
    by (simp add: poll_tick_unfold fs_defs present_def w_empty_def)
  note t = cancel_keyword
         [where ls = "['' CaNcEl '']" and w = w_asked and q = ex_question
            and n = 0 and rest = "[''next'']" and i = "''q1''" and ?w2.0 = ?w1
            and r = "\<lparr>r_id = ''q1'', response = [], responded = False, r_timestamp = 1500\<rparr>"
            and st = 1000 and ts = 300 and ab = True and qf = "''q''" and rf = "''r''"
            and ?w3.0 = w_empty and r' = aborted_outcome
            and ?w4.0 = "w_empty\<lparr>trace := [Exists ''q'']\<rparr>"
            and ?w0.0 = w_empty and a = ex_args and c = ex_context and rnd = "[10, 11, 12]"
            and env = "\<lambda>w. w" and sched = "[]"]
  have p: "promptUser (AQuestion ex_question) ['' CaNcEl '', '''', ''next''] w_asked =
     (Resolved, [''next''], ?w1)"
    using t cancel_example
    by (simp add: w_asked_def ex_question_def responseFile_of_def plain_id_def)
  have e: "fst (execute ex_args ex_context [10, 11, 12]
           [(False, responder_scans ['' CaNcEl '', '''', ''next'']), (False, \<lambda>w. w)] w_empty) =
     Return \<lparr>o_responded = False, o_response = [], cancelled = True,
             reason = Some ''User cancelled the request''\<rparr>"
    using t cancel_example
    by (simp add: w_empty_def ex_args_def)
  show ?thesis
    using t ab e
    by (simp add: p) (simp add: w_asked_def present_def responseFile_of_def)
qed

section \<open>The Responder's loop\<close>

text \<open>
  C6. The Responder deletes nothing. Over its whole loop, whatever the schedule, the input
  and the state it starts from, no operation it performs is an \<open>Unlink\<close>, and every file
  it writes is written under a name \<^verbatim>\<open>response_....json\<close> joined to \<^verbatim>\<open>IPC_DIR\<close>; the
  directory creation of \<^verbatim>\<open>ensureIpcDir\<close> is its only other mutation. Across one scan,
  every file that was present is still present. When the ids of the request records in
  the mailbox hold no \<^verbatim>\<open>/\<close> and no NUL character, the files written are the entries of
  these names, and every file that is not named like a reply has the text it had.
\<close>

theorem responder_never_deletes:
  "list_all responder_effect (new_events w (snd (snd (main_loop sched s w))))
 \<and> (present f w \<longrightarrow> present f (snd (snd (main_loop [\<lambda>w. w] s w))))
 \<and> ((\<forall>g v. parsed_file w g = Some (Object v) \<longrightarrow> plain_id (obj_id v))
      \<and> \<not> (startsWith f ''response_'' \<and> endsWith f ''.json'') \<longrightarrow>
      map_of (files (snd (snd (main_loop [\<lambda>w. w] s w)))) f = map_of (files w) f)"
proof (intro conjI impI)
  from main_loop_effects[of w sched s]
  show "list_all responder_effect (new_events w (snd (snd (main_loop sched s w))))"
    by (auto simp add: extends_by_def new_events_def)
next
  assume "present f w"
  then show "present f (snd (snd (main_loop [\<lambda>w. w] s w)))"
    by (rule main_loop_single_scan_present)
next
  assume h: "(\<forall>g v. parsed_file w g = Some (Object v) \<longrightarrow> plain_id (obj_id v))
      \<and> \<not> (startsWith f ''response_'' \<and> endsWith f ''.json'')"
  with main_loop_single_scan_kept[of w s]
  have "mailbox_kept w (snd (snd (main_loop [\<lambda>w. w] s w)))" by blast
  with h show "map_of (files (snd (snd (main_loop [\<lambda>w. w] s w)))) f = map_of (files w) f"
    by (simp add: mailbox_kept_def del: main_loop.simps)
qed

theorem responder_never_deletes_witness:
  "list_all responder_effect
     [ExistsDir, Readdir, ReadFile ''question_q1.json'', Shown ''q1'',
      WriteFile ''response_q1.json'']
 \<and> present ''question_q1.json''
       (snd (snd (main_loop [\<lambda>w. w]
                    \<lparr>processedQuestions = {}, stdin = [''Use option B'', '''', ''next'']\<rparr> w_asked)))
 \<and> map_of (files (snd (snd (main_loop [\<lambda>w. w]
                    \<lparr>processedQuestions = {}, stdin = [''Use option B'', '''', ''next'']\<rparr> w_asked))))
       ''question_q1.json'' = Some (Stringify (AQuestion ex_question))"
proof -
  have h: "\<forall>g v. parsed_file w_asked g = Some (Object v) \<longrightarrow> plain_id (obj_id v)"
    by (auto simp add: parsed_file_def w_asked_def obj_id_def ex_question_def plain_id_def
          split: if_splits)
  from responder_never_deletes
          [where w = w_asked and sched = "[\<lambda>w. w]" and f = "''question_q1.json''"
             and s = "\<lparr>processedQuestions = {}, stdin = [''Use option B'', '''', ''next'']\<rparr>"]
       h
  show ?thesis
    by (simp add: scan_example new_events_def startsWith_def del: main_loop.simps)
       (simp add: w_asked_def present_def)
qed

text \<open>
  A request record whose id is \<^verbatim>\<open>x/../question_q1\<close>: \<^verbatim>\<open>path.join\<close> puts its reply file
  on the entry \<^verbatim>\<open>question_q1.json\<close>, and the Responder overwrites the request of
  \<open>ex_question\<close> with the reply record.
\<close>

theorem traversal_counterexample:
  "snd (snd (main_loop [\<lambda>w. w] \<lparr>processedQuestions = {}, stdin = [''gone'', '''']\<rparr>
               w_traversal)) =
     w_traversal
       \<lparr>files := [(''question_a.json'', Stringify (AQuestion ex_traversal)),
                  (''question_q1.json'',
                   Stringify (AResponse \<lparr>r_id = ''x/../question_q1'', response = ''gone'',
                                          responded = True, r_timestamp = 1500\<rparr>))],
        trace := [ExistsDir, Readdir, ReadFile ''question_a.json'',
                  ReadFile ''question_q1.json'', Shown ''x/../question_q1'',
                  WriteFile ''response_x/../question_q1.json'', Shown ''q1'']\<rparr>"
  by code_simp

text \<open>
  C7 (as amended). A failure to list the mailbox directory, or to create it when it is
  missing, ends the Responder: the error leaves \<^verbatim>\<open>main\<close>, whose \<^verbatim>\<open>catch\<close> logs the message
  and exits with status 1, at the first iteration, with nothing presented and no file
  changed. What a scan tolerates is the failure of a single request file: when the
  directory can be listed the scan never throws, and yields the records of the request
  files that can be read and parse, in the sorted order of their names, skipping the
  others.
\<close>

theorem listing_failure_ends_responder:
  "(Readdir \<in> set (failing w) \<or> (\<not> dir_exists w \<and> Mkdir \<in> set (failing w)) \<longrightarrow>
      fst (main_loop (env # sched) s w) = Exited EIO
    \<and> fst (snd (main_loop (env # sched) s w)) = s
    \<and> files (snd (snd (main_loop (env # sched) s w))) = files w
    \<and> list_all scan_effect (new_events w (snd (snd (main_loop (env # sched) s w)))))
 \<and> (Readdir \<notin> set (failing w) \<and> (dir_exists w \<or> Mkdir \<notin> set (failing w)) \<longrightarrow>
      fst (getPendingQuestions w) =
        Inr (List.map_filter (parsed_file w)
               (sort (filter (\<lambda>f. startsWith f ''question_'' \<and> endsWith f ''.json'')
                        (map fst (files w))))))"
proof (intro conjI impI)
  assume h: "Readdir \<in> set (failing w) \<or> (\<not> dir_exists w \<and> Mkdir \<in> set (failing w))"
  from getPendingQuestions_fails[OF h] obtain w' where
    g: "getPendingQuestions w = (Inl EIO, w')" "files w' = files w" "extends_by scan_effect w w'"
    by blast
  then have m: "main_loop (env # sched) s w = (Exited EIO, s, w')" by simp
  show "fst (main_loop (env # sched) s w) = Exited EIO" by (simp add: m del: main_loop.simps)
  show "fst (snd (main_loop (env # sched) s w)) = s" by (simp add: m del: main_loop.simps)
  show "files (snd (snd (main_loop (env # sched) s w))) = files w"
    by (simp add: m g(2) del: main_loop.simps)
  show "list_all scan_effect (new_events w (snd (snd (main_loop (env # sched) s w))))"
    using g(3) by (auto simp add: m extends_by_def new_events_def simp del: main_loop.simps)
next
  assume "Readdir \<notin> set (failing w) \<and> (dir_exists w \<or> Mkdir \<notin> set (failing w))"
  then show "fst (getPendingQuestions w) =
        Inr (List.map_filter (parsed_file w)
               (sort (filter (\<lambda>f. startsWith f ''question_'' \<and> endsWith f ''.json'')
                        (map fst (files w)))))"
    using getPendingQuestions_sorted by blast
qed

theorem listing_failure_ends_responder_witness:
  "fst (main_loop [\<lambda>w. w, \<lambda>w. w] \<lparr>processedQuestions = {}, stdin = [''Use option B'', '''']\<rparr>
          w_unlistable) = Exited EIO
 \<and> files (snd (snd (main_loop [\<lambda>w. w, \<lambda>w. w]
                      \<lparr>processedQuestions = {}, stdin = [''Use option B'', '''']\<rparr> w_unlistable)))
     = [(''question_q1.json'', Stringify (AQuestion ex_question))]
 \<and> fst (getPendingQuestions w_mixed) = Inr [Object (AQuestion ex_question)]"
proof -
  have "List.map_filter (parsed_file w_mixed)
               (sort (filter (\<lambda>f. startsWith f ''question_'' \<and> endsWith f ''.json'')
                        (map fst (files w_mixed)))) = [Object (AQuestion ex_question)]"
    by (simp add: w_mixed_def startsWith_def endsWith_def sort_example parsed_file_def
          List.map_filter_simps)
  with listing_failure_ends_responder
         [where w = w_unlistable and env = "\<lambda>w. w" and sched = "[\<lambda>w. w]"
            and s = "\<lparr>processedQuestions = {}, stdin = [''Use option B'', '''']\<rparr>"]
       listing_failure_ends_responder
         [where w = w_mixed and env = "\<lambda>w. w" and sched = "[\<lambda>w. w]"
            and s = "\<lparr>processedQuestions = {}, stdin = [''Use option B'', '''']\<rparr>"]
  show ?thesis
    by (simp add: w_unlistable_def w_mixed_def del: main_loop.simps)
qed
text \<open>
  With a request outstanding, input ready and the directory unlistable, the Responder
  exits at its first iteration instead of going on.
\<close>

theorem listing_failure_counterexample:
  "main [\<lambda>w. w, \<lambda>w. w] [''Use option B'', ''''] w_unlistable =
     (Exited EIO, \<lparr>processedQuestions = {}, stdin = [''Use option B'', '''']\<rparr>,
      w_unlistable\<lparr>trace := [ExistsDir, Readdir]\<rparr>)"
  by (simp add: main_def getPendingQuestions_def fs_defs w_unlistable_def)

text \<open>
  C9. Over the whole loop of the Responder, whatever the schedule, the input and the
  state it starts from: no id is presented twice, no id of the set \<^verbatim>\<open>processedQuestions\<close>
  is presented (even though its file is still there), and every presentation is followed
  at once by the write of that question's reply file, before the next presentation. Every
  iteration of the loop of \<^verbatim>\<open>main\<close> is a run of one iteration from the state and the world
  the iteration before left. One iteration that can list the directory presents, of the
  records of the readable request files taken in the sorted order of the file names, the
  ids that are not in the set, each once, in that order: all of them when the iteration
  completes, a first part of them when it blocks on input or the process ends. Within an
  iteration, a record whose id is in the set is skipped; a record whose id is not (an id
  without \<^verbatim>\<open>/\<close> and NUL, the input holding an answer) is presented and its reply record is
  in the mailbox, under the name \<^verbatim>\<open>response_<id>.json\<close>, when the next record is
  considered.
\<close>

theorem presented_once_in_order:
  "distinct (shown_ids (new_events w (snd (snd (main_loop sched s w)))))
 \<and> set (shown_ids (new_events w (snd (snd (main_loop sched s w))))) \<inter> processedQuestions s = {}
 \<and> one_at_a_time (new_events w (snd (snd (main_loop sched s w))))
 \<and> main_loop (env # sched) s w =
     (case main_loop [env] s w of
        (Looping, s2, w2) \<Rightarrow> main_loop sched s2 w2
      | (Blocked, s2, w2) \<Rightarrow> (Blocked, s2, w2)
      | (Exited e, s2, w2) \<Rightarrow> (Exited e, s2, w2)
      | (Crashed e, s2, w2) \<Rightarrow> (Crashed e, s2, w2))
 \<and> (Readdir \<notin> set (failing w) \<and> (dir_exists w \<or> Mkdir \<notin> set (failing w)) \<longrightarrow>
      shown_ids (new_events w (snd (snd (main_loop [env] s w))))
        = take (length (shown_ids (new_events w (snd (snd (main_loop [env] s w))))))
            (unseen (processedQuestions s)
               (map obj_id (records (List.map_filter (parsed_file w)
                  (sort (filter (\<lambda>f. startsWith f ''question_'' \<and> endsWith f ''.json'')
                           (map fst (files w))))))))
    \<and> (fst (main_loop [env] s w) = Looping \<longrightarrow>
         shown_ids (new_events w (snd (snd (main_loop [env] s w))))
           = unseen (processedQuestions s)
               (map obj_id (records (List.map_filter (parsed_file w)
                  (sort (filter (\<lambda>f. startsWith f ''question_'' \<and> endsWith f ''.json'')
                           (map fst (files w)))))))))
 \<and> (obj_id v \<in> processedQuestions s \<longrightarrow>
      for_questions (Object v # qs) s w = for_questions qs s w)
 \<and> (q_id q \<notin> processedQuestions s \<and> plain_id (q_id q)
      \<and> stdin s = replicate n [] @ ls @ [] # rest \<and> ls \<noteq> [] \<and> [] \<notin> set ls
      \<and> dir_exists w \<and> WriteFile (responseFile_of (q_id q)) \<notin> set (failing w) \<longrightarrow>
      for_questions (Object (AQuestion q) # qs) s w =
        for_questions qs
          (s\<lparr>processedQuestions := insert (q_id q) (processedQuestions s), stdin := rest\<rparr>)
          (w\<lparr>files := AList.update (responseFile_of (q_id q))
                        (Stringify (AResponse
                           \<lparr>r_id = q_id q,
                            response = (if toLowerCase (trim (join ls)) = ''cancel'' then []
                                        else trim (join ls)),
                            responded = (toLowerCase (trim (join ls)) \<noteq> ''cancel''),
                            r_timestamp = clock w\<rparr>))
                        (files w),
             trace := trace w @ [Shown (q_id q), WriteFile (responseFile_of (q_id q))]\<rparr>))"
proof (intro conjI impI)
  obtain st s' w' where m: "main_loop sched s w = (st, s', w')"
    by (cases "main_loop sched s w")
  from main_loop_shown[OF m] obtain evs where
    e: "trace w' = trace w @ evs" "one_at_a_time evs" "distinct (shown_ids evs)"
       "set (shown_ids evs) \<inter> processedQuestions s = {}"
    by blast
  have n: "new_events w (snd (snd (main_loop sched s w))) = evs"
    using e(1) by (simp add: m new_events_def)
  show "distinct (shown_ids (new_events w (snd (snd (main_loop sched s w)))))"
    unfolding n by (rule e(3))
  show "set (shown_ids (new_events w (snd (snd (main_loop sched s w))))) \<inter> processedQuestions s = {}"
    unfolding n by (rule e(4))
  show "one_at_a_time (new_events w (snd (snd (main_loop sched s w))))"
    unfolding n by (rule e(2))
next
  show "main_loop (env # sched) s w =
     (case main_loop [env] s w of
        (Looping, s2, w2) \<Rightarrow> main_loop sched s2 w2
      | (Blocked, s2, w2) \<Rightarrow> (Blocked, s2, w2)
      | (Exited e, s2, w2) \<Rightarrow> (Exited e, s2, w2)
      | (Crashed e, s2, w2) \<Rightarrow> (Crashed e, s2, w2))"
    by (rule main_loop_unroll)
next
  let ?U = "unseen (processedQuestions s)
               (map obj_id (records (List.map_filter (parsed_file w)
                  (sort (filter (\<lambda>f. startsWith f ''question_'' \<and> endsWith f ''.json'')
                           (map fst (files w)))))))"
  let ?sh = "shown_ids (new_events w (snd (snd (main_loop [env] s w))))"
  assume h: "Readdir \<notin> set (failing w) \<and> (dir_exists w \<or> Mkdir \<notin> set (failing w))"
  then have h1: "Readdir \<notin> set (failing w)" and h2: "dir_exists w \<or> Mkdir \<notin> set (failing w)"
    by simp_all
  from main_loop_scan_order[OF h1 h2, of env s] obtain k where
    k: "?sh = take k ?U" "fst (main_loop [env] s w) = Looping \<longrightarrow> ?sh = ?U"
    by blast
  show "?sh = take (length ?sh) ?U"
    using k(1) by (rule take_own_length)
  show "?sh = ?U" if "fst (main_loop [env] s w) = Looping"
    using k(2) that by blast
next
  assume "obj_id v \<in> processedQuestions s"
  then show "for_questions (Object v # qs) s w = for_questions qs s w" by simp
next
  assume h: "q_id q \<notin> processedQuestions s \<and> plain_id (q_id q)
      \<and> stdin s = replicate n [] @ ls @ [] # rest \<and> ls \<noteq> [] \<and> [] \<notin> set ls
      \<and> dir_exists w \<and> WriteFile (responseFile_of (q_id q)) \<notin> set (failing w)"
  then have "obj_id (AQuestion q) \<notin> processedQuestions s" by (simp add: obj_id_def)
  from for_questions_answer[OF this, of q n ls rest w qs] h
  show "for_questions (Object (AQuestion q) # qs) s w =
        for_questions qs
          (s\<lparr>processedQuestions := insert (q_id q) (processedQuestions s), stdin := rest\<rparr>)
          (w\<lparr>files := AList.update (responseFile_of (q_id q))
                        (Stringify (AResponse
                           \<lparr>r_id = q_id q,
                            response = (if toLowerCase (trim (join ls)) = ''cancel'' then []
                                        else trim (join ls)),
                            responded = (toLowerCase (trim (join ls)) \<noteq> ''cancel''),
                            r_timestamp = clock w\<rparr>))
                        (files w),
             trace := trace w @ [Shown (q_id q), WriteFile (responseFile_of (q_id q))]\<rparr>)"
    by simp
qed

theorem presented_once_in_order_witness:
  "new_events w_two
     (snd (snd (main_loop [\<lambda>w. w]
        \<lparr>processedQuestions = {}, stdin = [''Use option B'', '''', ''blue'', '''', ''next'']\<rparr>
        w_two)))
     = [ExistsDir, Readdir, ReadFile ''question_q1.json'', ReadFile ''question_q2.json'',
        Shown ''q1'', WriteFile ''response_q1.json'',
        Shown ''q2'', WriteFile ''response_q2.json'']
 \<and> distinct [''q1'', ''q2'']
 \<and> one_at_a_time
       [ExistsDir, Readdir, ReadFile ''question_q1.json'', ReadFile ''question_q2.json'',
        Shown ''q1'', WriteFile ''response_q1.json'',
        Shown ''q2'', WriteFile ''response_q2.json'']
 \<and> fst (main_loop [\<lambda>w. w]
        \<lparr>processedQuestions = {}, stdin = [''Use option B'', '''', ''blue'', '''', ''next'']\<rparr>
        w_two) = Looping
 \<and> [''q1'', ''q2''] =
     unseen {} (map obj_id (records (List.map_filter (parsed_file w_two)
                  (sort (filter (\<lambda>f. startsWith f ''question_'' \<and> endsWith f ''.json'')
                           (map fst (files w_two)))))))
 \<and> for_questions [Object (AQuestion ex_question), Object (AQuestion ex_question2)]
       \<lparr>processedQuestions = {''q1''}, stdin = [''blue'', '''']\<rparr> w_two
     = for_questions [Object (AQuestion ex_question2)]
         \<lparr>processedQuestions = {''q1''}, stdin = [''blue'', '''']\<rparr> w_two
 \<and> for_questions [Object (AQuestion ex_question), Object (AQuestion ex_question2)]
       \<lparr>processedQuestions = {}, stdin = [''Use option B'', '''', ''blue'', '''', ''next'']\<rparr> w_two
     = for_questions [Object (AQuestion ex_question2)]
         \<lparr>processedQuestions = {''q1''}, stdin = [''blue'', '''', ''next'']\<rparr>
         (w_two\<lparr>files := [(''question_q2.json'', Stringify (AQuestion ex_question2)),
                           (''question_q1.json'', Stringify (AQuestion ex_question)),
                           (''response_q1.json'',
                            Stringify (AResponse \<lparr>r_id = ''q1'', response = ''Use option B'',
                                  responded = True, r_timestamp = 1500\<rparr>))],
                trace := [Shown ''q1'', WriteFile ''response_q1.json'']\<rparr>)"
proof -
  have s: "sort [''question_q2.json'', ''question_q1.json''] =
             [''question_q1.json'', ''question_q2.json'']"
    by code_simp
  have g: "List.map_filter (parsed_file w_two)
               (sort (filter (\<lambda>f. startsWith f ''question_'' \<and> endsWith f ''.json'')
                        (map fst (files w_two))))
           = [Object (AQuestion ex_question), Object (AQuestion ex_question2)]"
    by (simp add: w_two_def startsWith_def endsWith_def s parsed_file_def List.map_filter_simps)
  note a = presented_once_in_order
         [where w = w_two and sched = "[\<lambda>w. w]" and env = "\<lambda>w. w"
            and s = "\<lparr>processedQuestions = {}, stdin = [''Use option B'', '''', ''blue'', '''', ''next'']\<rparr>"
            and v = "AQuestion ex_question" and qs = "[Object (AQuestion ex_question2)]"
            and q = ex_question and n = 0 and ls = "[''Use option B'']"
            and rest = "[''blue'', '''', ''next'']"]
  note b = presented_once_in_order
         [where w = w_two and sched = "[\<lambda>w. w]" and env = "\<lambda>w. w"
            and s = "\<lparr>processedQuestions = {''q1''}, stdin = [''blue'', '''']\<rparr>"
            and v = "AQuestion ex_question" and qs = "[Object (AQuestion ex_question2)]"
            and q = ex_question and n = 0 and ls = "[''Use option B'']"
            and rest = "[''blue'', '''', ''next'']"]
  have c1: "new_events w_two
     (snd (snd (main_loop [\<lambda>w. w]
        \<lparr>processedQuestions = {}, stdin = [''Use option B'', '''', ''blue'', '''', ''next'']\<rparr>
        w_two)))
     = [ExistsDir, Readdir, ReadFile ''question_q1.json'', ReadFile ''question_q2.json'',
        Shown ''q1'', WriteFile ''response_q1.json'',
        Shown ''q2'', WriteFile ''response_q2.json'']"
    by (simp add: one_scan_example new_events_def del: main_loop.simps)
       (simp add: w_two_def)
  have c2: "fst (main_loop [\<lambda>w. w]
        \<lparr>processedQuestions = {}, stdin = [''Use option B'', '''', ''blue'', '''', ''next'']\<rparr>
        w_two) = Looping"
    by (simp add: one_scan_example del: main_loop.simps)
  have c3: "[''q1'', ''q2''] =
     unseen {} (map obj_id (records (List.map_filter (parsed_file w_two)
                  (sort (filter (\<lambda>f. startsWith f ''question_'' \<and> endsWith f ''.json'')
                           (map fst (files w_two)))))))"
  proof -
    have h: "Readdir \<notin> set (failing w_two)" "dir_exists w_two"
      by (simp_all add: w_two_def)
    note a5 = a[THEN conjunct2, THEN conjunct2, THEN conjunct2, THEN conjunct2, THEN conjunct1]
    from a5 c2 h
    have "shown_ids (new_events w_two
            (snd (snd (main_loop [\<lambda>w. w]
               \<lparr>processedQuestions = {},
                  stdin = [''Use option B'', '''', ''blue'', '''', ''next'']\<rparr> w_two))))
          = unseen (processedQuestions
               \<lparr>processedQuestions = {},
                  stdin = [''Use option B'', '''', ''blue'', '''', ''next'']\<rparr>)
              (map obj_id (records (List.map_filter (parsed_file w_two)
                  (sort (filter (\<lambda>f. startsWith f ''question_'' \<and> endsWith f ''.json'')
                           (map fst (files w_two)))))))"
      by blast
    then show ?thesis
      by (simp add: c1 del: main_loop.simps for_questions.simps)
  qed
  have c4: "for_questions [Object (AQuestion ex_question), Object (AQuestion ex_question2)]
       \<lparr>processedQuestions = {''q1''}, stdin = [''blue'', '''']\<rparr> w_two
     = for_questions [Object (AQuestion ex_question2)]
         \<lparr>processedQuestions = {''q1''}, stdin = [''blue'', '''']\<rparr> w_two"
    using b by (simp add: obj_id_def ex_question_def del: main_loop.simps for_questions.simps)
  have c5: "for_questions [Object (AQuestion ex_question), Object (AQuestion ex_question2)]
       \<lparr>processedQuestions = {}, stdin = [''Use option B'', '''', ''blue'', '''', ''next'']\<rparr> w_two
     = for_questions [Object (AQuestion ex_question2)]
         \<lparr>processedQuestions = {''q1''}, stdin = [''blue'', '''', ''next'']\<rparr>
         (w_two\<lparr>files := [(''question_q2.json'', Stringify (AQuestion ex_question2)),
                           (''question_q1.json'', Stringify (AQuestion ex_question)),
                           (''response_q1.json'',
                            Stringify (AResponse \<lparr>r_id = ''q1'', response = ''Use option B'',
                                  responded = True, r_timestamp = 1500\<rparr>))],
                trace := [Shown ''q1'', WriteFile ''response_q1.json'']\<rparr>)"
    using a answer_example
    by (simp add: plain_id_def ex_question_def w_two_def responseFile_of_def
          del: main_loop.simps for_questions.simps)
  show ?thesis
    by (intro conjI c1 c2 c3 c4 c5) (simp_all add: responseFile_of_def)
qed

end
